theory Spec2Isabelle
  imports Main "HOL-Library.Sublist" "HOL-Library.Multiset"
begin

section \<open>Python strings\<close>

text \<open>
  A \<^typ>\<open>string\<close> stands for a Python \<open>str\<close> whose code points are below 256, one
  \<^typ>\<open>char\<close> for each character, so that \<^const>\<open>length\<close> is \<open>len\<close> and
  \<^const>\<open>take\<close> is a slice \<open>s[:n]\<close>. Every delimiter the scraper tests for is ASCII.
\<close>

definition startswith :: "string \<Rightarrow> string \<Rightarrow> bool" where
  \<comment> \<open>\<open>s.startswith(p)\<close>\<close>
  "startswith s p = prefix p s"

definition str_in :: "string \<Rightarrow> string \<Rightarrow> bool" where
  \<comment> \<open>\<open>p in s\<close> on two strings: \<open>p\<close> occurs in \<open>s\<close> as a contiguous piece\<close>
  "str_in p s = sublist p s"

definition isspace :: "char \<Rightarrow> bool" where
  \<comment> \<open>\<open>str.isspace\<close> on the code points below 256\<close>
  "isspace c = ((of_char c :: nat) \<in> {9, 10, 11, 12, 13, 28, 29, 30, 31, 32, 133, 160})"

definition strip :: "string \<Rightarrow> string" where
  \<comment> \<open>\<open>s.strip()\<close>\<close>
  "strip s = rev (dropWhile isspace (rev (dropWhile isspace s)))"

definition strip_chars :: "char \<Rightarrow> string \<Rightarrow> string" where
  \<comment> \<open>\<open>s.strip(c)\<close> for a one-character argument\<close>
  "strip_chars c s = rev (dropWhile (\<lambda>x. x = c) (rev (dropWhile (\<lambda>x. x = c) s)))"

definition lower_char :: "char \<Rightarrow> char" where
  \<comment> \<open>\<open>str.lower\<close> on one code point below 256: A-Z, and the Latin-1 capitals but the
      multiplication sign\<close>
  "lower_char c =
     (let n = (of_char c :: nat)
      in if (65 \<le> n \<and> n \<le> 90) \<or> (192 \<le> n \<and> n \<le> 222 \<and> n \<noteq> 215)
         then char_of (n + 32) else c)"

definition lower :: "string \<Rightarrow> string" where
  "lower s = map lower_char s"

fun split_acc :: "char \<Rightarrow> string \<Rightarrow> string \<Rightarrow> string list" where
  "split_acc c cur [] = [cur]"
| "split_acc c cur (x # xs) =
     (if x = c then cur # split_acc c [] xs else split_acc c (cur @ [x]) xs)"

definition split_on :: "char \<Rightarrow> string \<Rightarrow> string list" where
  \<comment> \<open>\<open>s.split(c)\<close> for a one-character separator: never empty, \<open>''''.split(c) = ['''']\<close>\<close>
  "split_on c s = split_acc c [] s"

fun join :: "string \<Rightarrow> string list \<Rightarrow> string" where
  \<comment> \<open>\<open>sep.join(parts)\<close>\<close>
  "join sep [] = []"
| "join sep [x] = x"
| "join sep (x # y # ys) = x @ sep @ join sep (y # ys)"

section \<open>The store\<close>

text \<open>
  \<open>init_db\<close> creates three tables. A table is the list of its rows in rowid order. The
  columns the scraper always fills carry their value; \<open>link_id\<close>, which the anti-join of
  \<open>get_unscraped\<close> tests for NULL, is nullable. \<open>scanned_at\<close> and \<open>scraped_at\<close> default
  to the clock of the insert, a parameter \<open>now\<close> of each operation.
\<close>

record link_row =
  l_id :: int
  l_page :: int
  l_title :: string
  l_link :: string
  l_scanned_at :: nat

record detail_row =
  d_id :: int
  d_link_id :: "int option"
  d_description :: string
  d_scraped_at :: nat

record exturl_row =
  e_id :: int
  e_link_id :: "int option"
  e_external_url :: string
  e_source_href :: string
  e_link_text :: string
  e_scraped_at :: nat

record store =
  links_tbl :: "link_row list"
  details_tbl :: "detail_row list"
  exturl_tbl :: "exturl_row list"

definition next_rowid :: "int list \<Rightarrow> int" where
  \<comment> \<open>an \<open>INTEGER PRIMARY KEY\<close> left out of an insert: 1 in an empty table, else one more
      than the largest rowid\<close>
  "next_rowid ids = (if ids = [] then 1 else Max (set ids) + 1)"

section \<open>The scraper object\<close>

text \<open>
  An entry of \<open>self.links\<close> is the dict \<open>{'Page', 'Title', 'Link'}\<close> that
  \<open>extract_links\<close> appends. \<open>'Page'\<close> holds \<open>str(page_num)\<close> and is read back with
  \<open>int(...)\<close> by \<open>save_links\<close>; the record keeps the integer.
\<close>

record item =
  Page :: int
  Title :: string
  Link :: string

record scraper =
  links :: "item list"
  failed_deep :: "string list"
  db :: store

subsection \<open>Stage 1 persistence: \<open>save_links\<close>\<close>

definition insert_or_ignore_link :: "nat \<Rightarrow> item \<Rightarrow> link_row list \<Rightarrow> link_row list \<times> nat" where
  \<comment> \<open>\<open>INSERT OR IGNORE INTO links (page, title, link)\<close> under \<open>link TEXT UNIQUE\<close>; the
      second component is \<open>cursor.rowcount\<close>\<close>
  "insert_or_ignore_link now it rows =
     (if Link it \<in> set (map l_link rows) then (rows, 0)
      else (rows @ [\<lparr>l_id = next_rowid (map l_id rows), l_page = Page it,
                     l_title = Title it, l_link = Link it, l_scanned_at = now\<rparr>], 1))"

fun save_links_loop :: "nat \<Rightarrow> item list \<Rightarrow> link_row list \<Rightarrow> nat \<Rightarrow> link_row list \<times> nat" where
  "save_links_loop now [] rows inserted = (rows, inserted)"
| "save_links_loop now (it # items) rows inserted =
     (case insert_or_ignore_link now it rows of
        (rows', rowcount) \<Rightarrow>
          save_links_loop now items rows' (if rowcount > 0 then inserted + 1 else inserted))"


subsection \<open>The undetailed work set: \<open>get_unscraped\<close>\<close>

definition left_join :: "link_row list \<Rightarrow> detail_row list \<Rightarrow> (link_row \<times> detail_row option) list" where
  \<comment> \<open>\<open>links l LEFT JOIN details d ON l.id = d.link_id\<close>: each link with each of its
      matches, or once with an all-NULL right side when it has none\<close>
  "left_join ls ds =
     concat (map (\<lambda>l. let ms = filter (\<lambda>d. d_link_id d = Some (l_id l)) ds
                       in if ms = [] then [(l, None)] else map (\<lambda>d. (l, Some d)) ms) ls)"

definition joined_link_id :: "link_row \<times> detail_row option \<Rightarrow> int option" where
  \<comment> \<open>the column \<open>d.link_id\<close> of a joined row\<close>
  "joined_link_id r = (case snd r of None \<Rightarrow> None | Some d \<Rightarrow> d_link_id d)"

definition get_unscraped :: "scraper \<Rightarrow> (int \<times> string) list" where
  \<comment> \<open>\<open>SELECT l.id, l.link FROM ... WHERE d.link_id IS NULL\<close>\<close>
  "get_unscraped self =
     map (\<lambda>r. (l_id (fst r), l_link (fst r)))
       (filter (\<lambda>r. joined_link_id r = None)
          (left_join (links_tbl (db self)) (details_tbl (db self))))"

section \<open>Parsed pages\<close>

text \<open>
  A page parsed by BeautifulSoup is a tree of tags and text strings; the soup itself is the
  root tag. An attribute list is the tag's \<open>attrs\<close> dict. The multi-valued \<open>class\<close>
  attribute is kept as written and cut at white space where it is matched, which is the
  list BeautifulSoup holds.
\<close>

datatype node = NavigableString string | Tag string "(string \<times> string) list" "node list"

datatype exn = AttributeError | TypeError | ValueError | KeyError

fun descendants :: "node \<Rightarrow> node list" where
  \<comment> \<open>\<open>tag.descendants\<close>, in document order\<close>
  "descendants (NavigableString s) = []"
| "descendants (Tag n as cs) = concat (map (\<lambda>c. c # descendants c) cs)"

definition find_all :: "(node \<Rightarrow> bool) \<Rightarrow> node \<Rightarrow> node list" where
  "find_all P t = filter P (descendants t)"

definition find_first :: "(node \<Rightarrow> bool) \<Rightarrow> node \<Rightarrow> node option" where
  \<comment> \<open>\<open>tag.find(...)\<close>: the first match of \<open>find_all\<close>, or \<open>None\<close>\<close>
  "find_first P t = (case find_all P t of [] \<Rightarrow> None | x # _ \<Rightarrow> Some x)"

fun is_tag :: "string list \<Rightarrow> node \<Rightarrow> bool" where
  \<comment> \<open>a tag whose name is one of the given names\<close>
  "is_tag names (NavigableString s) = False"
| "is_tag names (Tag n as cs) = (n \<in> set names)"

fun get_attr :: "node \<Rightarrow> string \<Rightarrow> string option" where
  \<comment> \<open>\<open>tag.get(key)\<close>\<close>
  "get_attr (NavigableString s) k = None"
| "get_attr (Tag n as cs) k = map_of as k"

fun tokens_acc :: "string \<Rightarrow> string \<Rightarrow> string list" where
  "tokens_acc cur [] = (if cur = [] then [] else [cur])"
| "tokens_acc cur (x # xs) =
     (if isspace x then (if cur = [] then [] else [cur]) @ tokens_acc [] xs
      else tokens_acc (cur @ [x]) xs)"

definition class_list :: "node \<Rightarrow> string list option" where
  \<comment> \<open>the value of the \<open>class\<close> attribute: its white-space separated tokens\<close>
  "class_list t = map_option (tokens_acc []) (get_attr t ''class'')"

definition has_class :: "string \<Rightarrow> node \<Rightarrow> bool" where
  \<comment> \<open>\<open>class_=c\<close> for a string \<open>c\<close> without white space: some token is \<open>c\<close>\<close>
  "has_class c t = (case class_list t of None \<Rightarrow> False | Some toks \<Rightarrow> c \<in> set toks)"

definition class_matches :: "(string \<Rightarrow> bool) \<Rightarrow> node \<Rightarrow> bool" where
  \<comment> \<open>\<open>class_=f\<close> for a function: \<open>f\<close> is tried on each token, then on the tokens
      joined by spaces; a tag without the attribute passes \<open>None\<close>, which the scraper's
      lambdas reject\<close>
  "class_matches f t =
     (case class_list t of None \<Rightarrow> False
      | Some toks \<Rightarrow> list_ex f toks \<or> f (join '' '' toks))"

fun strings_of :: "node \<Rightarrow> string list" where
  "strings_of (NavigableString s) = [s]"
| "strings_of (Tag n as cs) = concat (map strings_of cs)"

definition get_text_strip :: "node \<Rightarrow> string" where
  \<comment> \<open>\<open>tag.get_text(strip=True)\<close>: the stripped strings below the tag, the empty ones
      dropped, joined by the empty separator\<close>
  "get_text_strip t = concat (filter (\<lambda>s. s \<noteq> []) (map strip (strings_of t)))"

fun select_desc :: "bool \<Rightarrow> node \<Rightarrow> node list" where
  \<comment> \<open>the matches of \<open>div.description-container span.description-text.textbox.md\<close> at
      and below a node, in document order; \<open>inside\<close> says that an ancestor is such a div\<close>
  "select_desc inside (NavigableString s) = []"
| "select_desc inside (Tag n as cs) =
     (if inside \<and> n = ''span'' \<and> has_class ''description-text'' (Tag n as cs)
         \<and> has_class ''textbox'' (Tag n as cs) \<and> has_class ''md'' (Tag n as cs)
      then [Tag n as cs] else [])
     @ concat (map (select_desc
          (inside \<or> (n = ''div'' \<and> has_class ''description-container'' (Tag n as cs)))) cs)"

fun select_one_description :: "node \<Rightarrow> node option" where
  \<comment> \<open>\<open>soup.select_one(...)\<close> of that selector: the first match below the soup\<close>
  "select_one_description (NavigableString s) = None"
| "select_one_description (Tag n as cs) =
     (case concat (map (select_desc False) cs) of [] \<Rightarrow> None | x # _ \<Rightarrow> Some x)"

section \<open>Library functions\<close>

text \<open>
  The parser and the functions of \<open>urllib.parse\<close> are parameters of the model.
  \<open>parse_qs lib q k\<close> is \<open>parse_qs(q).get(k)\<close>: every list in that dict has a first value,
  so the entry is the pair of the first value and the others. \<open>urlparse\<close> raises
  \<open>ValueError\<close> on some inputs.
\<close>

record parse_result =
  scheme :: string
  netloc :: string
  path :: string
  params :: string
  query :: string
  fragment :: string

record pylib =
  BeautifulSoup :: "string \<Rightarrow> node"
  parse_qs :: "string \<Rightarrow> string \<Rightarrow> (string \<times> string list) option"
  unquote :: "string \<Rightarrow> string"
  urlparse :: "string \<Rightarrow> exn + parse_result"

section \<open>Stage 1 parsing: \<open>extract_links\<close>\<close>

definition card_title :: "node \<Rightarrow> node \<Rightarrow> exn + string" where
  \<comment> \<open>\<open>(div.find([h2, h3, h4], class_=...) or a.get('title') or a).get_text(strip=True)\<close>.
      A tag is truthy; a non-empty \<open>title\<close> attribute is a \<open>str\<close>, which has no
      \<open>get_text\<close>\<close>
  "card_title div' a =
     (case find_first (\<lambda>t. is_tag [''h2'', ''h3'', ''h4''] t
                              \<and> class_matches (\<lambda>x. x \<noteq> [] \<and> str_in ''title'' (lower x)) t) div' of
        Some h \<Rightarrow> Inr (get_text_strip h)
      | None \<Rightarrow>
          (case get_attr a ''title'' of
             None \<Rightarrow> Inr (get_text_strip a)
           | Some t \<Rightarrow> if t \<noteq> [] then Inl AttributeError else Inr (get_text_strip a)))"

fun extract_cards :: "int \<Rightarrow> node list \<Rightarrow> item list \<Rightarrow> exn option \<times> item list" where
  \<comment> \<open>the loop over the cards; an exception leaves the loop with the entries appended so far\<close>
  "extract_cards page_num [] acc = (None, acc)"
| "extract_cards page_num (div' # divs) acc =
     (case find_first (\<lambda>t. is_tag [''a''] t \<and> get_attr t ''href'' \<noteq> None) div' of
        None \<Rightarrow> extract_cards page_num divs acc
      | Some a \<Rightarrow>
          (case get_attr a ''href'' of
             None \<Rightarrow> (Some KeyError, acc)
           | Some href0 \<Rightarrow>
               let href = (if startswith href0 ''/'' then ''https://guncadindex.com'' @ href0
                           else href0)
               in (case card_title div' a of
                     Inl e \<Rightarrow> (Some e, acc)
                   | Inr title \<Rightarrow>
                       extract_cards page_num divs
                         (if title \<noteq> []
                          then acc @ [\<lparr>Page = page_num, Title = take 100 title, Link = href\<rparr>]
                          else acc))))"

definition extract_links :: "pylib \<Rightarrow> string \<Rightarrow> int \<Rightarrow> scraper \<Rightarrow> exn option \<times> scraper" where
  "extract_links lib html page_num self =
     (if html = [] then (None, self)
      else case extract_cards page_num
                  (find_all (\<lambda>t. is_tag [''div''] t \<and> has_class ''grid-view-max'' t)
                     (BeautifulSoup lib html))
                  (links self) of
             (e, ls) \<Rightarrow> (e, self\<lparr>links := ls\<rparr>))"

section \<open>Stage 2: \<open>scrape_detail\<close> and \<open>stage2_deep\<close>\<close>

record ext_link =
  external_url :: string
  source_href :: string
  link_text :: string

definition href_marker :: "node \<Rightarrow> bool" where
  \<comment> \<open>\<open>href=lambda h: h and '/out/?u=' in h\<close>\<close>
  "href_marker t =
     (case get_attr t ''href'' of None \<Rightarrow> False | Some h \<Rightarrow> h \<noteq> [] \<and> str_in ''/out/?u='' h)"

definition u_param :: "pylib \<Rightarrow> string \<Rightarrow> string option" where
  \<comment> \<open>\<open>parse_qs(href.split('?')[1]).get('u', [None])[0] if '?' in href else None\<close>\<close>
  "u_param lib href =
     (if str_in ''?'' href
      then (case parse_qs lib (split_on CHR ''?'' href ! 1) ''u'' of
              None \<Rightarrow> None
            | Some (v, vs) \<Rightarrow> Some v)
      else None)"

fun ext_links_loop :: "pylib \<Rightarrow> node list \<Rightarrow> ext_link list \<Rightarrow> exn + ext_link list" where
  "ext_links_loop lib [] ext_links = Inr ext_links"
| "ext_links_loop lib (a # as) ext_links =
     (case get_attr a ''href'' of
        None \<Rightarrow> Inl KeyError
      | Some href \<Rightarrow>
          (case u_param lib href of
             None \<Rightarrow> ext_links_loop lib as ext_links
           | Some u \<Rightarrow>
               if u \<noteq> []
               then ext_links_loop lib as
                      (ext_links @ [\<lparr>external_url = unquote lib u, source_href = href,
                                     link_text = take 50 (get_text_strip a)\<rparr>])
               else ext_links_loop lib as ext_links))"

definition extract_ext_links :: "pylib \<Rightarrow> node \<Rightarrow> exn + ext_link list" where
  "extract_ext_links lib soup =
     ext_links_loop lib (find_all (\<lambda>t. is_tag [''a''] t \<and> href_marker t) soup) []"

definition extract_description :: "node \<Rightarrow> string" where
  \<comment> \<open>\<open>desc.get_text(strip=True) if desc else ""\<close>\<close>
  "extract_description soup =
     (case select_one_description soup of None \<Rightarrow> [] | Some desc \<Rightarrow> get_text_strip desc)"

definition insert_or_replace_detail :: "nat \<Rightarrow> int \<Rightarrow> string \<Rightarrow> detail_row list \<Rightarrow> detail_row list" where
  \<comment> \<open>\<open>INSERT OR REPLACE INTO details (link_id, description)\<close> under \<open>link_id INTEGER
      UNIQUE\<close>: the row of that \<open>link_id\<close> is deleted, the new row takes a fresh rowid\<close>
  "insert_or_replace_detail now link_id description rows =
     filter (\<lambda>d. d_link_id d \<noteq> Some link_id) rows
     @ [\<lparr>d_id = next_rowid (map d_id rows), d_link_id = Some link_id,
          d_description = description, d_scraped_at = now\<rparr>]"

fun insert_exturls :: "nat \<Rightarrow> int \<Rightarrow> ext_link list \<Rightarrow> exturl_row list \<Rightarrow> exturl_row list" where
  \<comment> \<open>the loop of \<open>INSERT INTO exturl\<close>: no uniqueness, every entry becomes a row\<close>
  "insert_exturls now link_id [] rows = rows"
| "insert_exturls now link_id (ext # exts) rows =
     insert_exturls now link_id exts
       (rows @ [\<lparr>e_id = next_rowid (map e_id rows), e_link_id = Some link_id,
                  e_external_url = external_url ext, e_source_href = source_href ext,
                  e_link_text = link_text ext, e_scraped_at = now\<rparr>])"

definition scrape_detail ::
  "pylib \<Rightarrow> (string \<Rightarrow> string) \<Rightarrow> nat \<Rightarrow> scraper \<Rightarrow> int \<Rightarrow> string \<Rightarrow> exn option \<times> scraper" where
  \<comment> \<open>\<open>fetch url\<close> is what \<open>self.fetch\<close> returns for the url: the page, or \<open>""\<close> on any
      failure\<close>
  "scrape_detail lib fetch now self link_id url =
     (let html = fetch url in
      if html = [] then (None, self\<lparr>failed_deep := failed_deep self @ [url]\<rparr>)
      else
        let soup = BeautifulSoup lib html;
            description = extract_description soup
        in (case extract_ext_links lib soup of
              Inl e \<Rightarrow> (Some e, self)
            | Inr ext_links \<Rightarrow>
                let conn = db self;
                    conn1 = (if description \<noteq> []
                             then conn\<lparr>details_tbl :=
                                    insert_or_replace_detail now link_id description (details_tbl conn)\<rparr>
                             else conn);
                    conn2 = conn1\<lparr>exturl_tbl := insert_exturls now link_id ext_links (exturl_tbl conn1)\<rparr>
                in (None, self\<lparr>db := conn2\<rparr>)))"

text \<open>
  \<open>stage2_deep\<close> gathers one \<open>scrape_detail\<close> coroutine for each entry of the work
  set. A coroutine suspends only in its sleep and its fetch, so the store sections of the
  coroutines run one after another, in the order in which the fetches complete: \<open>sched\<close>
  gives that order, a rearrangement of the work set.
\<close>

fun run_details ::
  "pylib \<Rightarrow> (string \<Rightarrow> string) \<Rightarrow> nat \<Rightarrow> (int \<times> string) list \<Rightarrow> scraper \<Rightarrow> exn option \<times> scraper" where
  "run_details lib fetch now [] self = (None, self)"
| "run_details lib fetch now (w # ws) self =
     (case scrape_detail lib fetch now self (fst w) (snd w) of
        (None, self') \<Rightarrow> run_details lib fetch now ws self'
      | (Some e, self') \<Rightarrow> (Some e, self'))"

definition stage2_deep ::
  "pylib \<Rightarrow> (string \<Rightarrow> string) \<Rightarrow> nat \<Rightarrow> ((int \<times> string) list \<Rightarrow> (int \<times> string) list)
     \<Rightarrow> scraper \<Rightarrow> exn option \<times> scraper" where
  "stage2_deep lib fetch now sched self =
     (let unscraped = get_unscraped self
      in if unscraped = [] then (None, self)
         else run_details lib fetch now (sched unscraped) self)"

text \<open>
  Every run of the program builds a new scraper object on the store at \<open>db_path\<close>;
  \<open>init_db\<close> leaves existing tables as they are. \<open>deep_runs ... n st\<close> is the store after
  \<open>n\<close> successive runs of Stage 2 on the store \<open>st\<close>, the run \<open>k\<close> at the clock \<open>now k\<close>
  and in the order \<open>sched k\<close>, with the same pages served in every run.
\<close>

definition new_scraper :: "store \<Rightarrow> scraper" where
  "new_scraper st = \<lparr>links = [], failed_deep = [], db = st\<rparr>"

fun deep_runs ::
  "pylib \<Rightarrow> (string \<Rightarrow> string) \<Rightarrow> (nat \<Rightarrow> nat) \<Rightarrow> (nat \<Rightarrow> (int \<times> string) list \<Rightarrow> (int \<times> string) list)
     \<Rightarrow> nat \<Rightarrow> store \<Rightarrow> store" where
  "deep_runs lib fetch now sched 0 st = st"
| "deep_runs lib fetch now sched (Suc n) st =
     db (snd (stage2_deep lib fetch (now n) (sched n)
                (new_scraper (deep_runs lib fetch now sched n st))))"

section \<open>The download resolver\<close>

subsection \<open>\<open>odysee_to_canonical\<close>\<close>

definition split_once :: "char \<Rightarrow> string \<Rightarrow> string \<times> string" where
  \<comment> \<open>the two parts of \<open>s.split(c, 1)\<close> for a string in which \<open>c\<close> occurs\<close>
  "split_once c s = (takeWhile (\<lambda>x. x \<noteq> c) s, tl (dropWhile (\<lambda>x. x \<noteq> c) s))"

definition canonical_segment :: "string \<Rightarrow> string" where
  \<comment> \<open>the body of the loop over the path segments\<close>
  "canonical_segment segment =
     (if str_in '':'' segment \<and> \<not> str_in ''#'' segment
      then (case split_once CHR '':'' segment of (name, short_id) \<Rightarrow> name @ ''#'' @ short_id)
      else segment)"

fun canonical_segments :: "string list \<Rightarrow> string list \<Rightarrow> string list" where
  "canonical_segments [] segments = segments"
| "canonical_segments (segment # rest) segments =
     canonical_segments rest (segments @ [canonical_segment segment])"

definition odysee_to_canonical :: "pylib \<Rightarrow> string \<Rightarrow> exn + string option" where
  "odysee_to_canonical lib uri =
     (if startswith uri ''lbry://''
      then Inr (Some (strip_chars CHR ''/'' (drop (length ''lbry://'') uri)))
      else (case urlparse lib uri of
              Inl e \<Rightarrow> Inl e
            | Inr parsed \<Rightarrow>
                if \<not> str_in ''odysee.com'' (lower (netloc parsed)) then Inr None
                else let path' = unquote lib (strip_chars CHR ''/'' (path parsed))
                     in if path' = [] then Inr None
                        else Inr (Some (strip_chars CHR ''/''
                               (join ''/'' (canonical_segments (split_on CHR ''/'' path') []))))))"

subsection \<open>The decentralized download chain\<close>

text \<open>
  A value returned by the content-network client, or decoded from a JSON body: a dict is the
  list of its entries, with distinct keys. \<open>PInt\<close> stands for every number.
\<close>

datatype pyval =
  PNone | PBool bool | PInt int | PStr string | PList "pyval list" | PDict "(string \<times> pyval) list"

fun truthy :: "pyval \<Rightarrow> bool" where
  "truthy PNone = False"
| "truthy (PBool b) = b"
| "truthy (PInt n) = (n \<noteq> 0)"
| "truthy (PStr s) = (s \<noteq> [])"
| "truthy (PList xs) = (xs \<noteq> [])"
| "truthy (PDict kvs) = (kvs \<noteq> [])"

datatype call_result = Raises string | Returns pyval

datatype http_reply = RequestException | Response nat "pyval option"

datatype event = DownloadSingle string string | RpcPost string "(string \<times> pyval) list"

text \<open>
  What the resolver talks to. \<open>lbryt\<close> is the \<open>lbrytools\<close> module, \<open>None\<close> when its
  import failed; \<open>download_single lbryt uri ddir\<close> raises an exception with a message or
  returns a value. \<open>rpc_post method params\<close> is the reply to the POST of
  \<open>{method, params}\<close> to \<open>LBRY_RPC_URL\<close>: no reply at all, or a status and the body,
  \<open>None\<close> for a body that is not JSON. Every function returns the calls it made.
\<close>

record lbry_world =
  lbryt :: "(string \<Rightarrow> string \<Rightarrow> call_result) option"
  rpc_post :: "string \<Rightarrow> (string \<times> pyval) list \<Rightarrow> http_reply"
  download_dir :: string

fun contains_error :: "pyval \<Rightarrow> exn + bool" where
  \<comment> \<open>\<open>"error" in data\<close>\<close>
  "contains_error (PDict kvs) = Inr (''error'' \<in> set (map fst kvs))"
| "contains_error (PList xs) = Inr (PStr ''error'' \<in> set xs)"
| "contains_error (PStr s) = Inr (str_in ''error'' s)"
| "contains_error PNone = Inl TypeError"
| "contains_error (PBool b) = Inl TypeError"
| "contains_error (PInt n) = Inl TypeError"

definition call_lbry_rpc ::
  "lbry_world \<Rightarrow> string \<Rightarrow> (string \<times> pyval) list \<Rightarrow> (exn + pyval option) \<times> event list" where
  "call_lbry_rpc w method params' =
     ((case rpc_post w method params' of
         RequestException \<Rightarrow> Inr None
       | Response status body \<Rightarrow>
           if 400 \<le> status \<and> status < 600 then Inr None
           else (case body of
                   None \<Rightarrow> Inr None
                 | Some data \<Rightarrow>
                     (case contains_error data of
                        Inl e \<Rightarrow> Inl e
                      | Inr True \<Rightarrow> (case data of PDict kvs \<Rightarrow> Inr None | _ \<Rightarrow> Inl TypeError)
                      | Inr False \<Rightarrow>
                          (case data of
                             PDict kvs \<Rightarrow>
                               (case map_of kvs ''result'' of
                                  None \<Rightarrow> Inr None
                                | Some PNone \<Rightarrow> Inr None
                                | Some result \<Rightarrow> Inr (Some result))
                           | _ \<Rightarrow> Inl AttributeError)))),
      [RpcPost method params'])"

definition fallback_lbry_get :: "lbry_world \<Rightarrow> string \<Rightarrow> (exn + bool) \<times> event list" where
  "fallback_lbry_get w canonical_uri =
     (case call_lbry_rpc w ''get''
             [(''uri'', PStr (''lbry://'' @ canonical_uri)), (''save_file'', PBool True),
              (''download_dir'', PStr (download_dir w))] of
        (Inl e, evs) \<Rightarrow> (Inl e, evs)
      | (Inr None, evs) \<Rightarrow> (Inr False, evs)
      | (Inr (Some rpc_result), evs) \<Rightarrow>
          if \<not> truthy rpc_result then (Inr False, evs)
          else (case rpc_result of
                  PDict kvs \<Rightarrow> (Inr True, evs)
                | _ \<Rightarrow> (Inl AttributeError, evs)))"

definition handle_lbry_error :: "lbry_world \<Rightarrow> string \<Rightarrow> string \<Rightarrow> (exn + bool) \<times> event list" where
  \<comment> \<open>\<open>message\<close> is \<open>str(exc)\<close>\<close>
  "handle_lbry_error w message canonical_uri =
     (if str_in ''Cannot establish connection'' message then (Inr False, [])
      else fallback_lbry_get w canonical_uri)"

definition download_with_lbrytools :: "lbry_world \<Rightarrow> string \<Rightarrow> (exn + bool) \<times> event list" where
  "download_with_lbrytools w canonical_uri =
     (case lbryt w of
        None \<Rightarrow> (Inr False, [])
      | Some download_single \<Rightarrow>
          (let tier_a = [DownloadSingle canonical_uri (download_dir w)];
               later = (\<lambda>r. (fst r, tier_a @ snd r))
           in case download_single canonical_uri (download_dir w) of
                Raises message \<Rightarrow> later (handle_lbry_error w message canonical_uri)
              | Returns (PBool result) \<Rightarrow>
                  if result then (Inr True, tier_a)
                  else later (fallback_lbry_get w canonical_uri)
              | Returns (PDict result) \<Rightarrow> (Inr True, tier_a)
              | Returns _ \<Rightarrow> later (fallback_lbry_get w canonical_uri)))"

section \<open>Notions of the specification\<close>

text \<open>
  An absolute URL begins with a scheme and a colon; a scheme is a letter followed by letters,
  digits, \<open>+\<close>, \<open>-\<close> or \<open>.\<close> (RFC 3986).
\<close>

definition is_alpha :: "char \<Rightarrow> bool" where
  "is_alpha c = (let n = (of_char c :: nat) in (65 \<le> n \<and> n \<le> 90) \<or> (97 \<le> n \<and> n \<le> 122))"

definition scheme_char :: "char \<Rightarrow> bool" where
  "scheme_char c = (let n = (of_char c :: nat) in is_alpha c \<or> (48 \<le> n \<and> n \<le> 57) \<or> c \<in> set ''+-.'')"

definition is_absolute_url :: "string \<Rightarrow> bool" where
  "is_absolute_url u =
     (CHR '':'' \<in> set u \<and>
      (case takeWhile (\<lambda>c. c \<noteq> CHR '':'') u of [] \<Rightarrow> False
       | c # cs \<Rightarrow> is_alpha c \<and> list_all scheme_char cs))"

text \<open>
  \<open>from_card p c it\<close>: the entry \<open>it\<close> is what the loop of \<open>extract_links\<close> appends for
  the card \<open>c\<close> of page \<open>p\<close>.
\<close>

definition from_card :: "int \<Rightarrow> node \<Rightarrow> item \<Rightarrow> bool" where
  "from_card p c it =
     (\<exists>a h title.
        find_first (\<lambda>t. is_tag [''a''] t \<and> get_attr t ''href'' \<noteq> None) c = Some a
        \<and> get_attr a ''href'' = Some h \<and> card_title c a = Inr title \<and> title \<noteq> []
        \<and> it = \<lparr>Page = p, Title = take 100 title,
                 Link = (if startswith h ''/'' then ''https://guncadindex.com'' @ h else h)\<rparr>)"

text \<open>
  The query that the scraper reads in an href is the text between its first and its second
  question mark. An anchor carries a usable \<open>u\<close> when its href holds the marker and
  \<open>parse_qs\<close> returns, for that query, a non-empty first value for \<open>u\<close>.
  \<open>reference_of lib a r\<close>: \<open>r\<close> is the reference of the anchor \<open>a\<close>, with \<open>unquote\<close> of that
  value as its url. These notions are stated on the library functions and the href alone.
\<close>

definition href_query :: "string \<Rightarrow> string" where
  "href_query href =
     takeWhile (\<lambda>x. x \<noteq> CHR ''?'') (tl (dropWhile (\<lambda>x. x \<noteq> CHR ''?'') href))"

definition usable :: "pylib \<Rightarrow> node \<Rightarrow> bool" where
  "usable lib a =
     (case get_attr a ''href'' of
        None \<Rightarrow> False
      | Some href \<Rightarrow>
          str_in ''/out/?u='' href
          \<and> (case parse_qs lib (href_query href) ''u'' of
                None \<Rightarrow> False
              | Some (u, vs) \<Rightarrow> u \<noteq> []))"

definition reference_of :: "pylib \<Rightarrow> node \<Rightarrow> ext_link \<Rightarrow> bool" where
  "reference_of lib a r =
     (case get_attr a ''href'' of
        None \<Rightarrow> False
      | Some href \<Rightarrow>
          (case parse_qs lib (href_query href) ''u'' of
             None \<Rightarrow> False
           | Some (u, vs) \<Rightarrow>
               r = \<lparr>external_url = unquote lib u, source_href = href,
                     link_text = take 50 (get_text_strip a)\<rparr>))"

text \<open>
  The claim's reading of the \<open>u\<close> parameter: the query of an href is all the text after
  its first question mark, a list of \<open>name=value\<close> pairs separated by \<open>&\<close>, and the
  parameter is the value as written in the first pair of that name. Its URL-unescaped value
  is \<open>unquote\<close> of it.
\<close>

definition raw_param :: "string \<Rightarrow> string \<Rightarrow> string option" where
  "raw_param k href =
     (case filter (\<lambda>nv. CHR ''='' \<in> set nv \<and> fst (split_once CHR ''='' nv) = k)
             (split_on CHR ''&'' (tl (dropWhile (\<lambda>x. x \<noteq> CHR ''?'') href))) of
        [] \<Rightarrow> None
      | nv # _ \<Rightarrow> Some (snd (split_once CHR ''='' nv)))"

text \<open>
  Trimming and rewriting, as relations. \<open>trimmed c s t\<close>: \<open>t\<close> is \<open>s\<close> without the run of
  \<open>c\<close> at its start and the run of \<open>c\<close> at its end. \<open>rewritten seg seg'\<close>: a segment with a
  colon and no hash mark is \<open>name:short_id\<close> with no colon in \<open>name\<close>, and \<open>seg'\<close> is
  \<open>name#short_id\<close>; any other segment is unchanged.
\<close>

definition trimmed :: "char \<Rightarrow> string \<Rightarrow> string \<Rightarrow> bool" where
  "trimmed c s t =
     (\<exists>pre post. s = pre @ t @ post \<and> set pre \<subseteq> {c} \<and> set post \<subseteq> {c}
        \<and> (t = [] \<or> (hd t \<noteq> c \<and> last t \<noteq> c)))"

definition rewritten :: "string \<Rightarrow> string \<Rightarrow> bool" where
  "rewritten seg seg' =
     (if CHR '':'' \<in> set seg \<and> CHR ''#'' \<notin> set seg
      then (\<exists>name short_id. seg = name @ '':'' @ short_id \<and> CHR '':'' \<notin> set name
              \<and> seg' = name @ ''#'' @ short_id)
      else seg' = seg)"

text \<open>
  The host of a netloc is what follows the user information, up to the port, in lower case
  (RFC 3986); \<open>urlparse(...).hostname\<close> for a netloc without brackets.
\<close>

definition host_of :: "string \<Rightarrow> string" where
  "host_of nl =
     lower (takeWhile (\<lambda>x. x \<noteq> CHR '':'') (rev (takeWhile (\<lambda>x. x \<noteq> CHR ''@'') (rev nl))))"

text \<open>
  The \<open>params\<close> of the \<open>get\<close> call of the fallback, and the statuses on which
  \<open>raise_for_status\<close> raises.
\<close>

definition get_params :: "lbry_world \<Rightarrow> string \<Rightarrow> (string \<times> pyval) list" where
  "get_params w canonical_uri =
     [(''uri'', PStr (''lbry://'' @ canonical_uri)), (''save_file'', PBool True),
      (''download_dir'', PStr (download_dir w))]"

definition http_error :: "nat \<Rightarrow> bool" where
  "http_error status = (400 \<le> status \<and> status < 600)"

text \<open>The rows of the \<open>details\<close> and \<open>exturl\<close> tables that belong to one listing.\<close>

definition detail_rows :: "int \<Rightarrow> store \<Rightarrow> detail_row list" where
  "detail_rows i st = filter (\<lambda>d. d_link_id d = Some i) (details_tbl st)"

definition exturl_rows :: "int \<Rightarrow> store \<Rightarrow> exturl_row list" where
  "exturl_rows i st = filter (\<lambda>e. e_link_id e = Some i) (exturl_tbl st)"

section \<open>Concrete inputs\<close>


definition store1 :: store where
  \<comment> \<open>two listings; the second has a detail row, and one detail row has a NULL \<open>link_id\<close>\<close>
  "store1 =
     \<lparr>links_tbl = [\<lparr>l_id = 1, l_page = 1, l_title = ''A'', l_link = ''u'', l_scanned_at = 0\<rparr>,
                   \<lparr>l_id = 2, l_page = 1, l_title = ''B'', l_link = ''v'', l_scanned_at = 0\<rparr>],
      details_tbl = [\<lparr>d_id = 1, d_link_id = Some 2, d_description = ''d'', d_scraped_at = 0\<rparr>,
                     \<lparr>d_id = 2, d_link_id = None, d_description = ''x'', d_scraped_at = 0\<rparr>],
      exturl_tbl = []\<rparr>"

definition page_lib :: "node \<Rightarrow> pylib" where
  \<comment> \<open>a library whose parser returns the given tree\<close>
  "page_lib soup = \<lparr>BeautifulSoup = (\<lambda>html. soup), parse_qs = (\<lambda>q k. None),
     unquote = (\<lambda>s. s), urlparse = (\<lambda>u. Inl ValueError)\<rparr>"

definition scraper_new :: scraper where
  \<comment> \<open>a fresh scraper on an empty store\<close>
  "scraper_new = \<lparr>links = [], failed_deep = [], db = \<lparr>links_tbl = [], details_tbl = [], exturl_tbl = []\<rparr>\<rparr>"

definition soup_rel :: node where
  \<comment> \<open>one card whose anchor has a relative href without a leading slash\<close>
  "soup_rel = Tag ''[document]'' []
     [Tag ''div'' [(''class'', ''card grid-view-max'')]
        [Tag ''a'' [(''href'', ''item/5'')] [NavigableString '' Foo '']]]"

definition soup_abs :: node where
  "soup_abs = Tag ''[document]'' []
     [Tag ''div'' [(''class'', ''grid-view-max'')]
        [Tag ''a'' [(''href'', ''/detail/42'')] [NavigableString ''Bar'']]]"


definition card_attr :: node where
  "card_attr = Tag ''div'' [(''class'', ''grid-view-max'')]
     [Tag ''a'' [(''href'', ''/detail/8''), (''title'', ''Qux'')] [NavigableString ''Baz'']]"

definition soup_detail :: node where
  "soup_detail = Tag ''[document]'' []
     [Tag ''div'' [(''class'', ''description-container'')]
        [Tag ''span'' [(''class'', ''description-text textbox md'')] [NavigableString ''A part '']],
      Tag ''a'' [(''href'', ''/out/?u=https%3A%2F%2Fodysee.com%2FItem%3Aabc'')]
        [NavigableString '' Get it '']]"

definition lib_detail :: "node \<Rightarrow> pylib" where
  "lib_detail soup =
     \<lparr>BeautifulSoup = (\<lambda>html. soup),
      parse_qs = (\<lambda>q k. if q = ''u=https%3A%2F%2Fodysee.com%2FItem%3Aabc'' \<and> k = ''u''
                          then Some (''https://odysee.com/Item:abc'', []) else None),
      unquote = (\<lambda>s. s),
      urlparse = (\<lambda>u. Inl ValueError)\<rparr>"

definition soup_twice :: node where
  \<comment> \<open>one external anchor whose \<open>u\<close> value is percent-encoded twice\<close>
  "soup_twice = Tag ''[document]'' []
     [Tag ''a'' [(''href'', ''/out/?u=%2541'')] [NavigableString ''x'']]"

definition lib_twice :: pylib where
  \<comment> \<open>the answers of \<open>urllib.parse\<close> on the strings of that page\<close>
  "lib_twice =
     \<lparr>BeautifulSoup = (\<lambda>html. soup_twice),
      parse_qs = (\<lambda>q k. if q = ''u=%2541'' \<and> k = ''u'' then Some (''%41'', []) else None),
      unquote = (\<lambda>s. if s = ''%2541'' then ''%41'' else if s = ''%41'' then ''A'' else s),
      urlparse = (\<lambda>u. Inl ValueError)\<rparr>"

definition lib_portal :: pylib where
  "lib_portal =
     \<lparr>BeautifulSoup = (\<lambda>html. Tag ''[document]'' [] []),
      parse_qs = (\<lambda>q k. None),
      unquote = (\<lambda>s. s),
      urlparse = (\<lambda>u.
         if u = ''https://odysee.com/@chan:1/Item:abc123''
         then Inr \<lparr>scheme = ''https'', netloc = ''odysee.com'', path = ''/@chan:1/Item:abc123'',
                   params = [], query = [], fragment = []\<rparr>
         else if u = ''https://example.org/Item:abc123''
         then Inr \<lparr>scheme = ''https'', netloc = ''example.org'', path = ''/Item:abc123'',
                   params = [], query = [], fragment = []\<rparr>
         else if u = ''https://odysee.com/''
         then Inr \<lparr>scheme = ''https'', netloc = ''odysee.com'', path = ''/'',
                   params = [], query = [], fragment = []\<rparr>
         else if u = ''https://odysee.com@evil.org/Item:abc''
         then Inr \<lparr>scheme = ''https'', netloc = ''odysee.com@evil.org'', path = ''/Item:abc'',
                   params = [], query = [], fragment = []\<rparr>
         else Inl ValueError)\<rparr>"

definition world_down :: lbry_world where
  "world_down =
     \<lparr>lbryt = Some (\<lambda>uri ddir. Raises ''Cannot establish connection to lbrynet''),
      rpc_post = (\<lambda>m ps. RequestException),
      download_dir = ''/srv/lbry_downloads''\<rparr>"

definition world_rpc :: "pyval \<Rightarrow> lbry_world" where
  "world_rpc body =
     \<lparr>lbryt = Some (\<lambda>uri ddir. Returns (PBool False)),
      rpc_post = (\<lambda>m ps. Response 200 (Some body)),
      download_dir = ''/srv/lbry_downloads''\<rparr>"

definition store2 :: store where
  "store2 =
     \<lparr>links_tbl = [\<lparr>l_id = 1, l_page = 1, l_title = ''A'', l_link = ''https://guncadindex.com/detail/a'',
                     l_scanned_at = 0\<rparr>,
                   \<lparr>l_id = 2, l_page = 1, l_title = ''B'', l_link = ''https://guncadindex.com/detail/b'',
                     l_scanned_at = 0\<rparr>],
      details_tbl = [], exturl_tbl = []\<rparr>"

definition fetch_b :: "string \<Rightarrow> string" where
  "fetch_b url = (if url = ''https://guncadindex.com/detail/b'' then ''<html>'' else [])"

definition soup_nodesc :: node where
  "soup_nodesc = Tag ''[document]'' []
     [Tag ''a'' [(''href'', ''/out/?u=https%3A%2F%2Fodysee.com%2FItem%3Aabc'')]
        [NavigableString ''Get it'']]"

definition store3 :: store where
  "store3 =
     \<lparr>links_tbl = [\<lparr>l_id = 1, l_page = 1, l_title = ''A'', l_link = ''https://guncadindex.com/detail/a'',
                     l_scanned_at = 0\<rparr>],
      details_tbl = [], exturl_tbl = []\<rparr>"

section \<open>Facts about the string functions\<close>

lemma split_acc_unfold:
  "split_acc c cur s =
     (cur @ takeWhile (\<lambda>x. x \<noteq> c) s)
       # (if c \<in> set s then split_acc c [] (tl (dropWhile (\<lambda>x. x \<noteq> c) s)) else [])"
  by (induction s arbitrary: cur) auto

lemma split_acc_hd: "\<exists>rest. split_acc c cur s = (cur @ takeWhile (\<lambda>x. x \<noteq> c) s) # rest"
  by (subst split_acc_unfold) simp

lemma split_on_second:
  assumes "c \<in> set s"
  shows "1 < length (split_on c s)"
    and "split_on c s ! 1 = takeWhile (\<lambda>x. x \<noteq> c) (tl (dropWhile (\<lambda>x. x \<noteq> c) s))"
proof -
  let ?r = "tl (dropWhile (\<lambda>x. x \<noteq> c) s)"
  obtain rest where r: "split_acc c [] ?r = ([] @ takeWhile (\<lambda>x. x \<noteq> c) ?r) # rest"
    using split_acc_hd by blast
  have "split_on c s = takeWhile (\<lambda>x. x \<noteq> c) s # split_acc c [] ?r"
    unfolding split_on_def using assms by (subst split_acc_unfold) simp
  with r show "1 < length (split_on c s)"
    and "split_on c s ! 1 = takeWhile (\<lambda>x. x \<noteq> c) ?r" by simp_all
qed

lemma str_in_eval:
  "str_in [] s = True"
  "str_in (x # xs) [] = False"
  "str_in (x # xs) (y # ys) = (prefix (x # xs) (y # ys) \<or> str_in (x # xs) ys)"
  by (simp_all add: str_in_def sublist_Cons_right)

lemma str_in_single: "str_in [c] s \<longleftrightarrow> c \<in> set s"
proof -
  have "sublist [c] s \<longleftrightarrow> c \<in> set s"
  proof (induction s)
    case Nil
    then show ?case by simp
  next
    case (Cons x s)
    then show ?case by (auto simp: sublist_Cons_right)
  qed
  then show ?thesis by (simp add: str_in_def)
qed

lemma marker_has_qmark: "str_in ''/out/?u='' h \<Longrightarrow> CHR ''?'' \<in> set h"
proof -
  assume "str_in ''/out/?u='' h"
  then obtain ps ss where "h = ps @ ''/out/?u='' @ ss"
    by (auto simp: str_in_def sublist_def)
  then show ?thesis by simp
qed

lemma strip_chars_spec:
  "\<exists>pre post. s = pre @ strip_chars c s @ post \<and> set pre \<subseteq> {c} \<and> set post \<subseteq> {c}
     \<and> (strip_chars c s \<noteq> [] \<longrightarrow> hd (strip_chars c s) \<noteq> c \<and> last (strip_chars c s) \<noteq> c)"
proof -
  define m where "m = dropWhile (\<lambda>x. x = c) s"
  define r where "r = dropWhile (\<lambda>x. x = c) (rev m)"
  define post where "post = rev (takeWhile (\<lambda>x. x = c) (rev m))"
  have sc: "strip_chars c s = rev r" by (simp add: strip_chars_def r_def m_def)
  have s: "s = takeWhile (\<lambda>x. x = c) s @ m" by (simp add: m_def)
  have "rev m = takeWhile (\<lambda>x. x = c) (rev m) @ r" by (simp add: r_def)
  then have "rev (rev m) = rev (takeWhile (\<lambda>x. x = c) (rev m) @ r)" by (rule arg_cong)
  then have m: "m = rev r @ post" by (simp add: post_def)
  have pre: "set (takeWhile (\<lambda>x. x = c) s) \<subseteq> {c}" by (auto dest: set_takeWhileD)
  have post: "set post \<subseteq> {c}" by (auto simp: post_def dest: set_takeWhileD)
  have ends: "hd (rev r) \<noteq> c \<and> last (rev r) \<noteq> c" if ne: "rev r \<noteq> []"
  proof -
    from ne have r: "r \<noteq> []" by simp
    then have "hd r \<noteq> c" unfolding r_def using hd_dropWhile [of "\<lambda>x. x = c" "rev m"] by simp
    then have l: "last (rev r) \<noteq> c" using r by (simp add: last_rev)
    from m r have mne: "m \<noteq> []" by simp
    then have "hd m \<noteq> c" unfolding m_def using hd_dropWhile [of "\<lambda>x. x = c" s] by simp
    moreover have "hd m = hd (rev r)" using m ne by (metis hd_append2)
    ultimately show ?thesis using l by simp
  qed
  have "s = takeWhile (\<lambda>x. x = c) s @ rev r @ post" using s m by simp
  with pre post ends show ?thesis unfolding sc by blast
qed

section \<open>Stage 1 persistence is idempotent\<close>






lemma next_rowid_fresh: "next_rowid ids \<notin> set ids"
proof (cases "ids = []")
  case True
  then show ?thesis by simp
next
  case False
  have "\<And>i. i \<in> set ids \<Longrightarrow> i \<le> Max (set ids)" by simp
  then have "Max (set ids) + 1 \<notin> set ids" by fastforce
  with False show ?thesis by (simp add: next_rowid_def)
qed

lemma loop_ids_distinct:
  "distinct (map l_id rows) \<Longrightarrow> distinct (map l_id (fst (save_links_loop now items rows n)))"
proof (induction items arbitrary: rows n)
  case Nil
  then show ?case by simp
next
  case (Cons it items)
  show ?case
  proof (cases "Link it \<in> set (map l_link rows)")
    case True
    then show ?thesis using Cons by (simp add: insert_or_ignore_link_def)
  next
    case False
    let ?r = "\<lparr>l_id = next_rowid (map l_id rows), l_page = Page it,
                     l_title = Title it, l_link = Link it, l_scanned_at = now\<rparr>"
    have "distinct (map l_id (rows @ [?r]))"
      using Cons.prems next_rowid_fresh [of "map l_id rows"] by simp
    from Cons.IH [OF this] False show ?thesis
      by (simp add: insert_or_ignore_link_def)
  qed
qed




section \<open>The undetailed work set is the anti-join\<close>

lemma left_join_set:
  "set (left_join ls ds) =
     {(l, None) | l. l \<in> set ls \<and> \<not> (\<exists>d \<in> set ds. d_link_id d = Some (l_id l))}
     \<union> {(l, Some d) | l d. l \<in> set ls \<and> d \<in> set ds \<and> d_link_id d = Some (l_id l)}"
  by (auto simp: left_join_def Let_def filter_empty_conv split: if_splits)

lemma get_unscraped_eq:
  "get_unscraped self = map (\<lambda>l. (l_id l, l_link l))
     (filter (\<lambda>l. \<not> (\<exists>d \<in> set (details_tbl (db self)). d_link_id d = Some (l_id l))) (links_tbl (db self)))"
proof -
  have "map (\<lambda>r. (l_id (fst r), l_link (fst r))) (filter (\<lambda>r. joined_link_id r = None) (left_join ls ds))
      = map (\<lambda>l. (l_id l, l_link l)) (filter (\<lambda>l. \<not> (\<exists>d \<in> set ds. d_link_id d = Some (l_id l))) ls)" for ls ds
  proof (induction ls)
    case Nil
    then show ?case by (simp add: left_join_def)
  next
    case (Cons l ls)
    have step: "left_join (l # ls) ds = (let ms = filter (\<lambda>d. d_link_id d = Some (l_id l)) ds
                       in if ms = [] then [(l, None)] else map (\<lambda>d. (l, Some d)) ms) @ left_join ls ds"
      by (simp add: left_join_def)
    show ?case
    proof (cases "\<exists>d \<in> set ds. d_link_id d = Some (l_id l)")
      case True
      then have ne: "filter (\<lambda>d. d_link_id d = Some (l_id l)) ds \<noteq> []"
        by (simp add: filter_empty_conv)
      have "filter (\<lambda>r. joined_link_id r = None) (map (\<lambda>d. (l, Some d)) (filter (\<lambda>d. d_link_id d = Some (l_id l)) ds)) = []"
        by (simp add: filter_empty_conv joined_link_id_def)
      with True ne show ?thesis using Cons.IH by (simp add: step)
    next
      case False
      then have "filter (\<lambda>d. d_link_id d = Some (l_id l)) ds = []"
        by (simp add: filter_empty_conv)
      with False show ?thesis using Cons.IH by (simp add: step joined_link_id_def)
    qed
  qed
  then show ?thesis by (simp add: get_unscraped_def)
qed

text \<open>
  Claim C4. In every store state, a pair \<open>(i, u)\<close> is returned by \<open>get_unscraped\<close> if and
  only if it is the id and url of a listing for whose id no detail row exists. A detail row
  whose \<open>link_id\<close> is NULL matches no listing.
\<close>

theorem get_unscraped_anti_join:
  "(i, u) \<in> set (get_unscraped self) \<longleftrightarrow>
     (\<exists>l \<in> set (links_tbl (db self)). l_id l = i \<and> l_link l = u
        \<and> \<not> (\<exists>d \<in> set (details_tbl (db self)). d_link_id d = Some (l_id l)))"
proof
  assume "(i, u) \<in> set (get_unscraped self)"
  then obtain l r where r: "(l, r) \<in> set (left_join (links_tbl (db self)) (details_tbl (db self)))"
    and null: "joined_link_id (l, r) = None" and iu: "i = l_id l" "u = l_link l"
    by (auto simp: get_unscraped_def)
  from r null have "r = None" and "l \<in> set (links_tbl (db self))"
    and "\<not> (\<exists>d \<in> set (details_tbl (db self)). d_link_id d = Some (l_id l))"
    by (auto simp: left_join_set joined_link_id_def)
  with iu show "\<exists>l \<in> set (links_tbl (db self)). l_id l = i \<and> l_link l = u
        \<and> \<not> (\<exists>d \<in> set (details_tbl (db self)). d_link_id d = Some (l_id l))"
    by blast
next
  assume "\<exists>l \<in> set (links_tbl (db self)). l_id l = i \<and> l_link l = u
        \<and> \<not> (\<exists>d \<in> set (details_tbl (db self)). d_link_id d = Some (l_id l))"
  then obtain l where l: "l \<in> set (links_tbl (db self))" "l_id l = i" "l_link l = u"
    "\<not> (\<exists>d \<in> set (details_tbl (db self)). d_link_id d = Some (l_id l))"
    by blast
  then have "(l, None) \<in> set (left_join (links_tbl (db self)) (details_tbl (db self)))"
    by (simp add: left_join_set)
  moreover have "joined_link_id (l, None) = None"
    by (simp add: joined_link_id_def)
  ultimately have "(l_id l, l_link l) \<in> set (get_unscraped self)"
    unfolding get_unscraped_def set_map set_filter by force
  with l show "(i, u) \<in> set (get_unscraped self)" by simp
qed

theorem get_unscraped_anti_join_witness:
  "(1, ''u'') \<in> set (get_unscraped \<lparr>links = [], failed_deep = [], db = store1\<rparr>)
   \<and> (2, ''v'') \<notin> set (get_unscraped \<lparr>links = [], failed_deep = [], db = store1\<rparr>)"
  using get_unscraped_anti_join [of 1 "''u''" "\<lparr>links = [], failed_deep = [], db = store1\<rparr>"]
    get_unscraped_anti_join [of 2 "''v''" "\<lparr>links = [], failed_deep = [], db = store1\<rparr>"]
  by (simp add: store1_def)

section \<open>Listing pages: what \<open>extract_links\<close> appends\<close>

lemma abs_origin: "is_absolute_url (''https://guncadindex.com'' @ h)"
  by (simp add: is_absolute_url_def is_alpha_def scheme_char_def)


lemma ec_none:
  "find_first (\<lambda>t. is_tag [''a''] t \<and> get_attr t ''href'' \<noteq> None) c = None
   \<Longrightarrow> extract_cards p (c # cs) acc = extract_cards p cs acc"
  by simp

lemma ec_exn:
  "find_first (\<lambda>t. is_tag [''a''] t \<and> get_attr t ''href'' \<noteq> None) c = Some a
   \<Longrightarrow> get_attr a ''href'' = Some h \<Longrightarrow> card_title c a = Inl x
   \<Longrightarrow> extract_cards p (c # cs) acc = (Some x, acc)"
  by (simp add: Let_def)

lemma ec_skip:
  "find_first (\<lambda>t. is_tag [''a''] t \<and> get_attr t ''href'' \<noteq> None) c = Some a
   \<Longrightarrow> get_attr a ''href'' = Some h \<Longrightarrow> card_title c a = Inr []
   \<Longrightarrow> extract_cards p (c # cs) acc = extract_cards p cs acc"
  by (simp add: Let_def)

lemma ec_app:
  "find_first (\<lambda>t. is_tag [''a''] t \<and> get_attr t ''href'' \<noteq> None) c = Some a
   \<Longrightarrow> get_attr a ''href'' = Some h \<Longrightarrow> card_title c a = Inr title \<Longrightarrow> title \<noteq> []
   \<Longrightarrow> extract_cards p (c # cs) acc = extract_cards p cs (acc @ [\<lparr>Page = p, Title = take 100 title,
         Link = (if startswith h ''/'' then ''https://guncadindex.com'' @ h else h)\<rparr>])"
  by (simp add: Let_def)


lemma ec_keyerr:
  "find_first (\<lambda>t. is_tag [''a''] t \<and> get_attr t ''href'' \<noteq> None) c = Some a
   \<Longrightarrow> get_attr a ''href'' = None
   \<Longrightarrow> extract_cards p (c # cs) acc = (Some KeyError, acc)"
  by simp

lemma extract_cards_new:
  "extract_cards p cards acc = (e, out) \<Longrightarrow>
     \<exists>new. out = acc @ new \<and> (\<forall>it \<in> set new. \<exists>c \<in> set cards. from_card p c it)"
proof (induction cards arbitrary: acc)
  case Nil
  then show ?case by simp
next
  case (Cons c cards)
  have step: "\<exists>new. out = acc @ new \<and> (\<forall>it \<in> set new. \<exists>c' \<in> set (c # cards). from_card p c' it)"
    if "extract_cards p cards acc' = (e, out)" and "acc' = acc @ pre"
      and "\<forall>it \<in> set pre. from_card p c it" for acc' pre
  proof -
    from Cons.IH [OF that(1)] obtain new where new: "out = acc' @ new"
      "\<forall>it \<in> set new. \<exists>c \<in> set cards. from_card p c it" by blast
    have "out = acc @ (pre @ new)" using new(1) that(2) by simp
    moreover have "\<forall>it \<in> set (pre @ new). \<exists>c' \<in> set (c # cards). from_card p c' it"
      using new(2) that(3) by auto
    ultimately show ?thesis by blast
  qed
  show ?case
  proof (cases "find_first (\<lambda>t. is_tag [''a''] t \<and> get_attr t ''href'' \<noteq> None) c")
    case None
    from Cons.prems have "extract_cards p cards acc = (e, out)"
      unfolding ec_none [OF None] .
    then show ?thesis by (rule step [where pre = "[]"]) simp_all
  next
    case (Some a)
    note a = this
    show ?thesis
    proof (cases "get_attr a ''href''")
      case None
      from Cons.prems have "out = acc" unfolding ec_keyerr [OF a None] by simp
      then show ?thesis by simp
    next
      case (Some h)
      note h = this
      show ?thesis
      proof (cases "card_title c a")
        case (Inl x)
        from Cons.prems have "out = acc" unfolding ec_exn [OF a h Inl] by simp
        then show ?thesis by simp
      next
        case (Inr title)
        note t = this
        show ?thesis
        proof (cases "title = []")
          case True
          from Cons.prems have "extract_cards p cards acc = (e, out)"
            unfolding ec_skip [OF a h t [unfolded True]] .
          then show ?thesis by (rule step [where pre = "[]"]) simp_all
        next
          case False
          let ?it = "\<lparr>Page = p, Title = take 100 title,
                   Link = (if startswith h ''/'' then ''https://guncadindex.com'' @ h else h)\<rparr>"
          from Cons.prems have run: "extract_cards p cards (acc @ [?it]) = (e, out)"
            unfolding ec_app [OF a h t False] .
          have "from_card p c ?it" unfolding from_card_def using a h t False by blast
          then have "\<forall>it \<in> set [?it]. from_card p c it" by simp
          with run show ?thesis by (intro step [where pre = "[?it]"]) simp_all
        qed
      qed
    qed
  qed
qed




lemma extract_links_new:
  assumes "extract_links lib html p self = (e, self')"
  shows "\<exists>new. links self' = links self @ new \<and> failed_deep self' = failed_deep self \<and> db self' = db self
     \<and> (\<forall>it \<in> set new. \<exists>c \<in> set (find_all (\<lambda>t. is_tag [''div''] t \<and> has_class ''grid-view-max'' t)
                                       (BeautifulSoup lib html)). from_card p c it)"
proof (cases "html = []")
  case True
  with assms have "self' = self" by (simp add: extract_links_def)
  then show ?thesis by simp
next
  case False
  let ?cards = "find_all (\<lambda>t. is_tag [''div''] t \<and> has_class ''grid-view-max'' t) (BeautifulSoup lib html)"
  obtain e' out where run: "extract_cards p ?cards (links self) = (e', out)"
    by (cases "extract_cards p ?cards (links self)")
  with False assms have "self' = self\<lparr>links := out\<rparr>" by (auto simp: extract_links_def)
  with extract_cards_new [OF run] show ?thesis by auto
qed

lemma absolute_no_slash: "is_absolute_url h \<Longrightarrow> \<not> startswith h ''/''"
proof
  assume a: "is_absolute_url h" and s: "startswith h ''/''"
  from s obtain t where h: "h = CHR ''/'' # t" by (auto simp: startswith_def prefix_def)
  from a show False unfolding h by (simp add: is_absolute_url_def is_alpha_def)
qed

text \<open>
  Claim C2, as the code has it. Every entry appended by \<open>extract_links\<close> is the entry of one
  card of the page: its page is the page number, its title is the first 100 characters of
  the card's title, so it has at most 100 characters, and its url is made from the href of
  the card's first anchor that has one. An href that begins with a slash is stored with
  \<open>https://guncadindex.com\<close> in front, any other href is stored as it is. So the stored url
  is absolute when the href begins with a slash or is absolute, and in no other case.
\<close>

theorem extract_links_records:
  assumes "extract_links lib html p self = (e, self')"
  shows "\<exists>new. links self' = links self @ new
     \<and> (\<forall>it \<in> set new.
          \<exists>c \<in> set (find_all (\<lambda>t. is_tag [''div''] t \<and> has_class ''grid-view-max'' t)
                        (BeautifulSoup lib html)).
            \<exists>a h title.
              find_first (\<lambda>t. is_tag [''a''] t \<and> get_attr t ''href'' \<noteq> None) c = Some a
              \<and> get_attr a ''href'' = Some h
              \<and> card_title c a = Inr title
              \<and> Page it = p
              \<and> Title it = take 100 title \<and> length (Title it) \<le> 100
              \<and> Link it = (if startswith h ''/'' then ''https://guncadindex.com'' @ h else h)
              \<and> (is_absolute_url (Link it) \<longleftrightarrow> startswith h ''/'' \<or> is_absolute_url h))"
proof -
  let ?cards = "find_all (\<lambda>t. is_tag [''div''] t \<and> has_class ''grid-view-max'' t) (BeautifulSoup lib html)"
  from extract_links_new [OF assms] obtain new where new: "links self' = links self @ new"
    "\<forall>it \<in> set new. \<exists>c \<in> set ?cards. from_card p c it" by blast
  have "\<exists>c \<in> set ?cards. \<exists>a h title.
              find_first (\<lambda>t. is_tag [''a''] t \<and> get_attr t ''href'' \<noteq> None) c = Some a
              \<and> get_attr a ''href'' = Some h
              \<and> card_title c a = Inr title
              \<and> Page it = p
              \<and> Title it = take 100 title \<and> length (Title it) \<le> 100
              \<and> Link it = (if startswith h ''/'' then ''https://guncadindex.com'' @ h else h)
              \<and> (is_absolute_url (Link it) \<longleftrightarrow> startswith h ''/'' \<or> is_absolute_url h)"
    if "it \<in> set new" for it
  proof -
    from that new(2) obtain c where c: "c \<in> set ?cards" "from_card p c it" by blast
    from c(2) obtain a h title where
      a: "find_first (\<lambda>t. is_tag [''a''] t \<and> get_attr t ''href'' \<noteq> None) c = Some a"
      and h: "get_attr a ''href'' = Some h"
      and t: "card_title c a = Inr title"
      and it: "it = \<lparr>Page = p, Title = take 100 title,
                 Link = (if startswith h ''/'' then ''https://guncadindex.com'' @ h else h)\<rparr>"
      unfolding from_card_def by blast
    have fields: "Page it = p" "Title it = take 100 title" "length (Title it) \<le> 100"
      "Link it = (if startswith h ''/'' then ''https://guncadindex.com'' @ h else h)"
      unfolding it by simp_all
    have ab: "is_absolute_url (Link it) \<longleftrightarrow> startswith h ''/'' \<or> is_absolute_url h"
    proof (cases "startswith h ''/''")
      case True
      then show ?thesis unfolding fields(4) using abs_origin by simp
    next
      case False
      then show ?thesis unfolding fields(4) by simp
    qed
    from a h t fields ab c(1) show ?thesis by blast
  qed
  with new(1) show ?thesis by blast
qed

theorem extract_links_records_witness:
  "extract_links (page_lib soup_abs) ''<html>'' 2 scraper_new
     = (None, scraper_new\<lparr>links := [\<lparr>Page = 2, Title = ''Bar'', Link = ''https://guncadindex.com/detail/42''\<rparr>]\<rparr>)
   \<and> is_absolute_url ''https://guncadindex.com/detail/42''"
proof -
  have run: "extract_links (page_lib soup_abs) ''<html>'' 2 scraper_new
   = (None, scraper_new\<lparr>links := [\<lparr>Page = 2, Title = ''Bar'', Link = ''https://guncadindex.com/detail/42''\<rparr>]\<rparr>)"
    by (simp add: extract_links_def page_lib_def soup_abs_def scraper_new_def find_all_def find_first_def
      has_class_def class_list_def isspace_def card_title_def class_matches_def str_in_eval lower_def
      lower_char_def startswith_def get_text_strip_def strip_def Let_def)
  have "is_absolute_url ''https://guncadindex.com/detail/42''"
    by (simp add: is_absolute_url_def is_alpha_def scheme_char_def)
  with run extract_links_records [OF run] show ?thesis by simp
qed


text \<open>
  Claim C2 as stated fails: an href that is relative without a leading slash is stored as it
  is. The card \<open><div class="card grid-view-max"><a href="item/5"> Foo </a></div>\<close> yields
  the entry with the url \<open>item/5\<close>, which is not absolute.
\<close>

theorem extract_links_relative_href_counterexample:
  "extract_links (page_lib soup_rel) ''<html>'' 1 scraper_new
     = (None, scraper_new\<lparr>links := [\<lparr>Page = 1, Title = ''Foo'', Link = ''item/5''\<rparr>]\<rparr>)
   \<and> \<not> is_absolute_url ''item/5''"
proof -
  have "extract_links (page_lib soup_rel) ''<html>'' 1 scraper_new
     = (None, scraper_new\<lparr>links := [\<lparr>Page = 1, Title = ''Foo'', Link = ''item/5''\<rparr>]\<rparr>)"
    by (simp add: extract_links_def page_lib_def soup_rel_def scraper_new_def find_all_def
        find_first_def has_class_def class_list_def isspace_def card_title_def class_matches_def
        str_in_eval lower_def lower_char_def startswith_def get_text_strip_def strip_def Let_def)
  moreover have "\<not> is_absolute_url ''item/5''"
    by (simp add: is_absolute_url_def)
  ultimately show ?thesis by simp
qed



text \<open>
  The middle alternative of the title, a non-empty \<open>title\<close> attribute of the anchor, is a
  \<open>str\<close>: the call of \<open>get_text\<close> on it raises \<open>AttributeError\<close>, and the page's
  remaining cards are not read.
\<close>

lemma title_attr_raises:
  "extract_links (page_lib (Tag ''[document]'' [] [card_attr])) ''<html>'' 1 scraper_new
    = (Some AttributeError, scraper_new)"
    by (simp add: extract_links_def page_lib_def card_attr_def scraper_new_def find_all_def
        find_first_def has_class_def class_list_def isspace_def card_title_def class_matches_def
        str_in_eval lower_def lower_char_def startswith_def get_text_strip_def strip_def Let_def)

section \<open>Detail pages: the external references\<close>

lemma u_param_query:
  "CHR ''?'' \<in> set href \<Longrightarrow>
     u_param lib href = map_option fst (parse_qs lib (href_query href) ''u'')"
proof -
  assume q: "CHR ''?'' \<in> set href"
  have "split_on CHR ''?'' href ! 1 = href_query href"
    unfolding href_query_def using q by (rule split_on_second(2))
  then have "u_param lib href
      = (case parse_qs lib (href_query href) ''u'' of None \<Rightarrow> None | Some (v, vs) \<Rightarrow> Some v)"
    using q by (simp only: u_param_def str_in_single if_True)
  then show ?thesis by (simp split: option.splits prod.splits)
qed

lemma ext_links_loop_spec:
  assumes "\<forall>a \<in> set as. href_marker a"
  shows "\<exists>new. ext_links_loop lib as acc = Inr (acc @ new)
           \<and> list_all2 (reference_of lib) (filter (usable lib) as) new"
  using assms
proof (induction as arbitrary: acc)
  case Nil
  then show ?case by simp
next
  case (Cons a as)
  from Cons.prems obtain href where href: "get_attr a ''href'' = Some href" "str_in ''/out/?u='' href"
    by (auto simp: href_marker_def split: option.splits)
  then have q: "CHR ''?'' \<in> set href" by (rule_tac marker_has_qmark)
  note up = u_param_query [OF q, of lib]
  have rest: "\<forall>a \<in> set as. href_marker a" using Cons.prems by simp
  show ?case
  proof (cases "usable lib a")
    case False
    with href have "u_param lib href = None \<or> u_param lib href = Some []"
      unfolding up by (auto simp: usable_def split: option.splits)
    then have "ext_links_loop lib (a # as) acc = ext_links_loop lib as acc"
      using href by auto
    with Cons.IH [OF rest, of acc] False show ?thesis by simp
  next
    case True
    with href obtain u vs where pq: "parse_qs lib (href_query href) ''u'' = Some (u, vs)"
      and ne: "u \<noteq> []"
      by (auto simp: usable_def split: option.splits)
    then have u: "u_param lib href = Some u" unfolding up by simp
    let ?r = "\<lparr>external_url = unquote lib u, source_href = href,
                link_text = take 50 (get_text_strip a)\<rparr>"
    have "reference_of lib a ?r"
      unfolding reference_of_def using href pq by simp
    moreover have "ext_links_loop lib (a # as) acc = ext_links_loop lib as (acc @ [?r])"
      using href u ne by simp
    moreover from Cons.IH [OF rest, of "acc @ [?r]"] obtain new where
      "ext_links_loop lib as (acc @ [?r]) = Inr ((acc @ [?r]) @ new)"
      "list_all2 (reference_of lib) (filter (usable lib) as) new" by blast
    ultimately have "ext_links_loop lib (a # as) acc = Inr (acc @ (?r # new))"
      and "list_all2 (reference_of lib) (filter (usable lib) (a # as)) (?r # new)"
      using True by simp_all
    then show ?thesis by blast
  qed
qed

lemma usable_marker: "usable lib a \<Longrightarrow> href_marker a"
proof -
  assume "usable lib a"
  then obtain href where h: "get_attr a ''href'' = Some href" "str_in ''/out/?u='' href"
    by (auto simp: usable_def split: option.splits)
  then have "href \<noteq> []" by (auto simp: str_in_def)
  with h show ?thesis by (simp add: href_marker_def)
qed

text \<open>
  Claim C3, as the code has it. On every parsed detail page \<open>extract_ext_links\<close> returns a
  list and raises nothing. The list has exactly one reference for each anchor, in document
  order, whose href holds the marker \<open>/out/?u=\<close> and for which \<open>parse_qs\<close>, applied to the
  text between the first and the second question mark of the href, returns a non-empty
  first value for \<open>u\<close>; no other anchor yields a reference. The \<open>external_url\<close> of the
  reference is \<open>unquote\<close> of that value, which \<open>parse_qs\<close> has unescaped already;
  \<open>source_href\<close> is the href, and \<open>link_text\<close> is the first 50 characters of the anchor's
  stripped text, so it has at most 50 characters.
\<close>

theorem extract_ext_links_spec:
  "\<exists>refs. extract_ext_links lib soup = Inr refs
     \<and> list_all2 (reference_of lib)
          (filter (\<lambda>a. is_tag [''a''] a \<and> usable lib a) (descendants soup)) refs
     \<and> (\<forall>r \<in> set refs. length (link_text r) \<le> 50)"
proof -
  let ?as = "find_all (\<lambda>t. is_tag [''a''] t \<and> href_marker t) soup"
  have "\<forall>a \<in> set ?as. href_marker a" by (simp add: find_all_def)
  from ext_links_loop_spec [OF this, of lib "[]"] obtain refs where
    refs: "extract_ext_links lib soup = Inr refs"
      "list_all2 (reference_of lib) (filter (usable lib) ?as) refs"
    by (auto simp: extract_ext_links_def)
  have "filter (usable lib) ?as = filter (\<lambda>a. is_tag [''a''] a \<and> usable lib a) (descendants soup)"
    unfolding find_all_def filter_filter
    by (rule filter_cong) (auto dest: usable_marker)
  with refs(2) have all2: "list_all2 (reference_of lib)
          (filter (\<lambda>a. is_tag [''a''] a \<and> usable lib a) (descendants soup)) refs" by simp
  have "length (link_text r) \<le> 50" if "r \<in> set refs" for r
  proof -
    from that all2 obtain a where "reference_of lib a r"
      by (auto simp: list_all2_conv_all_nth in_set_conv_nth)
    then show ?thesis by (auto simp: reference_of_def split: option.splits)
  qed
  with refs(1) all2 show ?thesis by blast
qed

theorem extract_ext_links_spec_witness:
  "extract_ext_links (lib_detail soup_detail) soup_detail
     = Inr [\<lparr>external_url = ''https://odysee.com/Item:abc'',
             source_href = ''/out/?u=https%3A%2F%2Fodysee.com%2FItem%3Aabc'',
             link_text = ''Get it''\<rparr>]
   \<and> filter (\<lambda>a. is_tag [''a''] a \<and> usable (lib_detail soup_detail) a) (descendants soup_detail)
     = [Tag ''a'' [(''href'', ''/out/?u=https%3A%2F%2Fodysee.com%2FItem%3Aabc'')]
          [NavigableString '' Get it '']]
   \<and> (\<exists>refs. extract_ext_links (lib_detail soup_detail) soup_detail = Inr refs
     \<and> list_all2 (reference_of (lib_detail soup_detail))
          (filter (\<lambda>a. is_tag [''a''] a \<and> usable (lib_detail soup_detail) a) (descendants soup_detail)) refs
     \<and> (\<forall>r \<in> set refs. length (link_text r) \<le> 50))"
proof -
  have "extract_ext_links (lib_detail soup_detail) soup_detail
     = Inr [\<lparr>external_url = ''https://odysee.com/Item:abc'',
             source_href = ''/out/?u=https%3A%2F%2Fodysee.com%2FItem%3Aabc'',
             link_text = ''Get it''\<rparr>]"
    by (simp add: extract_ext_links_def lib_detail_def soup_detail_def find_all_def href_marker_def
        str_in_eval u_param_def split_on_def get_text_strip_def strip_def isspace_def)
  moreover have "filter (\<lambda>a. is_tag [''a''] a \<and> usable (lib_detail soup_detail) a)
       (descendants soup_detail)
     = [Tag ''a'' [(''href'', ''/out/?u=https%3A%2F%2Fodysee.com%2FItem%3Aabc'')]
          [NavigableString '' Get it '']]"
    by (simp add: usable_def href_query_def lib_detail_def soup_detail_def str_in_eval)
  ultimately show ?thesis
    using extract_ext_links_spec [of "lib_detail soup_detail" soup_detail] by blast
qed

text \<open>
  Claim C3 as stated fails: the url is unescaped twice. In the href \<open>/out/?u=%2541\<close> the
  \<open>u\<close> parameter is \<open>%2541\<close>, and its URL-unescaped value is \<open>%41\<close>. \<open>parse_qs\<close> returns
  \<open>%41\<close> for it, and the scraper stores \<open>unquote\<close> of that, the url \<open>A\<close>.
\<close>

theorem extract_ext_links_double_unescape_counterexample:
  "extract_ext_links lib_twice soup_twice
     = Inr [\<lparr>external_url = ''A'', source_href = ''/out/?u=%2541'', link_text = ''x''\<rparr>]
   \<and> map_option (unquote lib_twice) (raw_param ''u'' ''/out/?u=%2541'') = Some ''%41''"
proof -
  have "extract_ext_links lib_twice soup_twice
     = Inr [\<lparr>external_url = ''A'', source_href = ''/out/?u=%2541'', link_text = ''x''\<rparr>]"
    by (simp add: extract_ext_links_def lib_twice_def soup_twice_def find_all_def href_marker_def
        str_in_eval u_param_def split_on_def get_text_strip_def strip_def isspace_def)
  moreover have "raw_param ''u'' ''/out/?u=%2541'' = Some ''%2541''"
    by (simp add: raw_param_def split_on_def split_once_def)
  ultimately show ?thesis by (simp add: lib_twice_def)
qed

section \<open>Canonical content identifiers\<close>

lemma canonical_segments_map: "canonical_segments xs acc = acc @ map canonical_segment xs"
  by (induction xs arbitrary: acc) simp_all

lemma canonical_segment_rewrite:
  assumes "CHR '':'' \<notin> set name" and "CHR ''#'' \<notin> set (name @ short_id)"
  shows "canonical_segment (name @ '':'' @ short_id) = name @ ''#'' @ short_id"
proof -
  have "takeWhile (\<lambda>x. x \<noteq> CHR '':'') (name @ CHR '':'' # short_id) = name"
    using assms(1) by (subst takeWhile_append2) auto
  moreover have "dropWhile (\<lambda>x. x \<noteq> CHR '':'') (name @ CHR '':'' # short_id) = CHR '':'' # short_id"
    using assms(1) by (subst dropWhile_append2) auto
  ultimately show ?thesis
    using assms(2) by (simp add: canonical_segment_def str_in_single split_once_def)
qed

lemma canonical_segment_keep:
  "CHR '':'' \<notin> set seg \<or> CHR ''#'' \<in> set seg \<Longrightarrow> canonical_segment seg = seg"
  by (auto simp: canonical_segment_def str_in_single)

lemma join_cons: "ys \<noteq> [] \<Longrightarrow> join sep (x # ys) = x @ sep @ join sep ys"
  by (cases ys) simp_all

lemma split_acc_nonempty: "split_acc c cur s \<noteq> []"
  by (induction s arbitrary: cur) auto

lemma join_split_acc: "join [c] (split_acc c cur s) = cur @ s"
  by (induction s arbitrary: cur) (auto simp: join_cons split_acc_nonempty)

lemma split_acc_free: "c \<notin> set cur \<Longrightarrow> \<forall>seg \<in> set (split_acc c cur s). c \<notin> set seg"
proof (induction s arbitrary: cur)
  case Nil
  then show ?case by simp
next
  case (Cons x s)
  show ?case
  proof (cases "x = c")
    case True
    have "\<forall>seg \<in> set (split_acc c [] s). c \<notin> set seg" by (rule Cons.IH) simp
    with True Cons.prems show ?thesis by simp
  next
    case False
    with Cons.prems have "c \<notin> set (cur @ [x])" by simp
    from Cons.IH [OF this] False show ?thesis by simp
  qed
qed

lemma split_on_segments:
  "split_on c s \<noteq> [] \<and> join [c] (split_on c s) = s \<and> (\<forall>seg \<in> set (split_on c s). c \<notin> set seg)"
  unfolding split_on_def
  using split_acc_nonempty [of c "[]" s] join_split_acc [of c "[]" s] split_acc_free [of c "[]" s]
  by simp

lemma rewritten_canonical: "rewritten seg (canonical_segment seg)"
proof (cases "CHR '':'' \<in> set seg \<and> CHR ''#'' \<notin> set seg")
  case False
  then show ?thesis by (auto simp: rewritten_def canonical_segment_def str_in_single)
next
  case True
  let ?name = "takeWhile (\<lambda>x. x \<noteq> CHR '':'') seg"
  let ?rest = "dropWhile (\<lambda>x. x \<noteq> CHR '':'') seg"
  from True have ne: "?rest \<noteq> []" by simp
  then have "hd ?rest = CHR '':''" using hd_dropWhile [of "\<lambda>x. x \<noteq> CHR '':''" seg] by simp
  with ne have rest: "?rest = CHR '':'' # tl ?rest" by (cases ?rest) simp_all
  have "seg = ?name @ ?rest" by simp
  then have seg: "seg = ?name @ '':'' @ tl ?rest" using rest by simp
  have name: "CHR '':'' \<notin> set ?name" by (auto dest: set_takeWhileD)
  have "canonical_segment seg = ?name @ ''#'' @ tl ?rest"
    using True by (simp add: canonical_segment_def str_in_single split_once_def)
  with seg name True show ?thesis unfolding rewritten_def by auto
qed

lemma trimmed_strip: "trimmed c s (strip_chars c s)"
  using strip_chars_spec [of s c] unfolding trimmed_def by blast

lemma trimmed_is_strip:
  assumes "trimmed c s t"
  shows "t = strip_chars c s"
proof -
  from assms obtain pre post where s: "s = pre @ t @ post"
    and pre: "set pre \<subseteq> {c}" and post: "set post \<subseteq> {c}"
    and t: "t = [] \<or> (hd t \<noteq> c \<and> last t \<noteq> c)"
    unfolding trimmed_def by blast
  have d1: "dropWhile (\<lambda>x. x = c) s = dropWhile (\<lambda>x. x = c) (t @ post)"
    unfolding s using pre by (subst dropWhile_append2) auto
  show ?thesis
  proof (cases "t = []")
    case True
    have e: "dropWhile (\<lambda>x. x = c) (t @ post) = []" using True post by auto
    have "strip_chars c s = rev (dropWhile (\<lambda>x. x = c) (rev []))"
      by (simp only: strip_chars_def d1 e)
    with True show ?thesis by simp
  next
    case False
    with t have h: "hd t \<noteq> c" and l: "last t \<noteq> c" by simp_all
    from False h have "dropWhile (\<lambda>x. x = c) (t @ post) = t @ post"
      by (cases t) simp_all
    with d1 have d2: "dropWhile (\<lambda>x. x = c) s = t @ post" by simp
    have "dropWhile (\<lambda>x. x = c) (rev post @ rev t) = dropWhile (\<lambda>x. x = c) (rev t)"
      using post by (subst dropWhile_append2) auto
    moreover from False l have "dropWhile (\<lambda>x. x = c) (rev t) = rev t"
      by (cases "rev t") (auto simp: hd_rev)
    ultimately show ?thesis by (simp add: strip_chars_def d2)
  qed
qed

text \<open>
  Claim C5, as the code has it. A uri \<open>lbry://rest\<close> yields \<open>rest\<close> with the slashes trimmed
  at both ends, so \<open>lbry://foo/bar\<close> yields \<open>foo/bar\<close>. Any other uri is parsed. When the
  lower-cased netloc does not contain \<open>odysee.com\<close>, or the path is empty once trimmed and
  decoded, the result is \<open>None\<close>. When the netloc contains \<open>odysee.com\<close>, wherever in it,
  and the decoded path is not empty, the result is made of the segments of the decoded
  path between its slashes: each is rewritten, the rewritten segments are joined by slashes,
  and the slashes at both ends are trimmed. So for the portal url with the path
  \<open>/Item:abc123\<close> the result is \<open>Item#abc123\<close>.
\<close>

theorem odysee_to_canonical_spec:
  "(\<exists>out. odysee_to_canonical lib (''lbry://'' @ rest) = Inr (Some out) \<and> trimmed CHR ''/'' rest out)
   \<and> odysee_to_canonical lib ''lbry://foo/bar'' = Inr (Some ''foo/bar'')
   \<and> (\<not> startswith uri ''lbry://'' \<and> urlparse lib uri = Inr parsed \<and> trimmed CHR ''/'' (path parsed) p
        \<longrightarrow>
        (\<not> str_in ''odysee.com'' (lower (netloc parsed)) \<or> unquote lib p = []
           \<longrightarrow> odysee_to_canonical lib uri = Inr None)
        \<and> (str_in ''odysee.com'' (lower (netloc parsed)) \<and> unquote lib p \<noteq> []
           \<longrightarrow> (\<exists>segs segs' out.
                  odysee_to_canonical lib uri = Inr (Some out)
                  \<and> segs \<noteq> [] \<and> (\<forall>seg \<in> set segs. CHR ''/'' \<notin> set seg)
                  \<and> unquote lib p = join ''/'' segs
                  \<and> list_all2 rewritten segs segs'
                  \<and> trimmed CHR ''/'' (join ''/'' segs') out)))
   \<and> (urlparse lib ''https://odysee.com/Item:abc123'' = Inr parsed'
        \<and> netloc parsed' = ''odysee.com'' \<and> path parsed' = ''/Item:abc123''
        \<and> unquote lib ''Item:abc123'' = ''Item:abc123''
        \<longrightarrow> odysee_to_canonical lib ''https://odysee.com/Item:abc123'' = Inr (Some ''Item#abc123''))"
proof -
  have native: "odysee_to_canonical lib (''lbry://'' @ rest) = Inr (Some (strip_chars CHR ''/'' rest))" for rest
    by (simp add: odysee_to_canonical_def startswith_def)
  then have 1: "\<exists>out. odysee_to_canonical lib (''lbry://'' @ rest) = Inr (Some out)
      \<and> trimmed CHR ''/'' rest out"
    using trimmed_strip by blast
  have 2: "odysee_to_canonical lib ''lbry://foo/bar'' = Inr (Some ''foo/bar'')"
    using native [of "''foo/bar''"] by (simp add: strip_chars_def)
  have run: "odysee_to_canonical lib uri =
        (if \<not> str_in ''odysee.com'' (lower (netloc parsed)) then Inr None
         else if unquote lib (strip_chars CHR ''/'' (path parsed)) = [] then Inr None
         else Inr (Some (strip_chars CHR ''/'' (join ''/'' (map canonical_segment
                (split_on CHR ''/'' (unquote lib (strip_chars CHR ''/'' (path parsed)))))))))"
    if "\<not> startswith uri ''lbry://''" "urlparse lib uri = Inr parsed" for uri parsed
    using that by (simp add: odysee_to_canonical_def canonical_segments_map Let_def)
  have 3: "(\<not> str_in ''odysee.com'' (lower (netloc parsed)) \<or> unquote lib p = []
           \<longrightarrow> odysee_to_canonical lib uri = Inr None)
        \<and> (str_in ''odysee.com'' (lower (netloc parsed)) \<and> unquote lib p \<noteq> []
           \<longrightarrow> (\<exists>segs segs' out.
                  odysee_to_canonical lib uri = Inr (Some out)
                  \<and> segs \<noteq> [] \<and> (\<forall>seg \<in> set segs. CHR ''/'' \<notin> set seg)
                  \<and> unquote lib p = join ''/'' segs
                  \<and> list_all2 rewritten segs segs'
                  \<and> trimmed CHR ''/'' (join ''/'' segs') out))"
    if a: "\<not> startswith uri ''lbry://''" "urlparse lib uri = Inr parsed"
      and t: "trimmed CHR ''/'' (path parsed) p"
  proof -
    have p: "p = strip_chars CHR ''/'' (path parsed)"
      using t by (rule trimmed_is_strip)
    let ?d = "unquote lib p"
    let ?segs = "split_on CHR ''/'' ?d"
    let ?segs' = "map canonical_segment ?segs"
    have "list_all2 rewritten ?segs ?segs'"
      by (simp add: list_all2_conv_all_nth rewritten_canonical)
    moreover have "?segs \<noteq> []" "\<forall>seg \<in> set ?segs. CHR ''/'' \<notin> set seg" "?d = join ''/'' ?segs"
      using split_on_segments [where c = "CHR ''/''" and s = ?d] by simp_all
    moreover have "trimmed CHR ''/'' (join ''/'' ?segs') (strip_chars CHR ''/'' (join ''/'' ?segs'))"
      by (rule trimmed_strip)
    ultimately show ?thesis unfolding run [OF a] p [symmetric] by auto
  qed
  have 4: "odysee_to_canonical lib ''https://odysee.com/Item:abc123'' = Inr (Some ''Item#abc123'')"
    if "urlparse lib ''https://odysee.com/Item:abc123'' = Inr parsed'"
      "netloc parsed' = ''odysee.com''" "path parsed' = ''/Item:abc123''"
      "unquote lib ''Item:abc123'' = ''Item:abc123''"
  proof -
    have "\<not> startswith ''https://odysee.com/Item:abc123'' ''lbry://''"
      by (simp add: startswith_def)
    moreover have "strip_chars CHR ''/'' ''/Item:abc123'' = ''Item:abc123''"
      by (simp add: strip_chars_def)
    moreover have "lower ''odysee.com'' = ''odysee.com''"
      by (simp add: lower_def lower_char_def)
    moreover have "str_in ''odysee.com'' ''odysee.com''" by (simp add: str_in_def)
    moreover have "split_on CHR ''/'' ''Item:abc123'' = [''Item:abc123'']"
      by (simp add: split_on_def)
    moreover have "canonical_segment ''Item:abc123'' = ''Item#abc123''"
      using canonical_segment_rewrite [of "''Item''" "''abc123''"] by simp
    moreover have "strip_chars CHR ''/'' ''Item#abc123'' = ''Item#abc123''"
      by (simp add: strip_chars_def)
    ultimately show ?thesis
      using that run [of "''https://odysee.com/Item:abc123''" parsed'] by simp
  qed
  from 1 2 3 4 show ?thesis by blast
qed

theorem odysee_to_canonical_spec_witness:
  "odysee_to_canonical lib_portal ''https://odysee.com/@chan:1/Item:abc123''
     = Inr (Some ''@chan#1/Item#abc123'')
   \<and> odysee_to_canonical lib_portal ''https://example.org/Item:abc123'' = Inr None
   \<and> odysee_to_canonical lib_portal ''https://odysee.com/'' = Inr None
   \<and> (\<exists>segs segs' out.
         odysee_to_canonical lib_portal ''https://odysee.com/@chan:1/Item:abc123'' = Inr (Some out)
         \<and> ''@chan:1/Item:abc123'' = join ''/'' segs
         \<and> list_all2 rewritten segs segs'
         \<and> trimmed CHR ''/'' (join ''/'' segs') out)"
proof -
  let ?u1 = "''https://odysee.com/@chan:1/Item:abc123''"
  let ?u2 = "''https://example.org/Item:abc123''"
  let ?u3 = "''https://odysee.com/''"
  let ?p1 = "\<lparr>scheme = ''https'', netloc = ''odysee.com'', path = ''/@chan:1/Item:abc123'',
                   params = [], query = [], fragment = []\<rparr>"
  let ?p2 = "\<lparr>scheme = ''https'', netloc = ''example.org'', path = ''/Item:abc123'',
                   params = [], query = [], fragment = []\<rparr>"
  let ?p3 = "\<lparr>scheme = ''https'', netloc = ''odysee.com'', path = ''/'',
                   params = [], query = [], fragment = []\<rparr>"
  have low: "lower ''odysee.com'' = ''odysee.com''" "lower ''example.org'' = ''example.org''"
    by (simp_all add: lower_def lower_char_def)
  have t1: "trimmed CHR ''/'' ''/@chan:1/Item:abc123'' ''@chan:1/Item:abc123''"
    using trimmed_strip [of "CHR ''/''" "''/@chan:1/Item:abc123''"] by (simp add: strip_chars_def)
  have t2: "trimmed CHR ''/'' ''/Item:abc123'' ''Item:abc123''"
    using trimmed_strip [of "CHR ''/''" "''/Item:abc123''"] by (simp add: strip_chars_def)
  have t3: "trimmed CHR ''/'' ''/'' []"
    using trimmed_strip [of "CHR ''/''" "''/''"] by (simp add: strip_chars_def)
  have seg: "canonical_segment ''@chan:1'' = ''@chan#1''"
    "canonical_segment ''Item:abc123'' = ''Item#abc123''"
    using canonical_segment_rewrite [of "''@chan''" "''1''"]
      canonical_segment_rewrite [of "''Item''" "''abc123''"] by simp_all
  have r1: "odysee_to_canonical lib_portal ?u1 = Inr (Some ''@chan#1/Item#abc123'')"
    by (simp add: odysee_to_canonical_def lib_portal_def startswith_def low str_in_eval
        strip_chars_def split_on_def seg)
  have h1: "\<not> startswith ?u1 ''lbry://'' \<and> urlparse lib_portal ?u1 = Inr ?p1"
    and h2: "\<not> startswith ?u2 ''lbry://'' \<and> urlparse lib_portal ?u2 = Inr ?p2"
    and h3: "\<not> startswith ?u3 ''lbry://'' \<and> urlparse lib_portal ?u3 = Inr ?p3"
    by (simp_all add: lib_portal_def startswith_def)
  have q1: "str_in ''odysee.com'' (lower (netloc ?p1)) \<and> unquote lib_portal ''@chan:1/Item:abc123'' \<noteq> []"
    by (simp add: low str_in_eval lib_portal_def)
  have q2: "\<not> str_in ''odysee.com'' (lower (netloc ?p2))"
    by (simp add: low str_in_eval)
  have q3: "unquote lib_portal [] = []" by (simp add: lib_portal_def)
  from odysee_to_canonical_spec [of lib_portal "[]" ?u1 ?p1 "''@chan:1/Item:abc123''" ?p1] h1 t1 q1
  have "\<exists>segs segs' out.
         odysee_to_canonical lib_portal ?u1 = Inr (Some out)
         \<and> segs \<noteq> [] \<and> (\<forall>seg \<in> set segs. CHR ''/'' \<notin> set seg)
         \<and> unquote lib_portal ''@chan:1/Item:abc123'' = join ''/'' segs
         \<and> list_all2 rewritten segs segs'
         \<and> trimmed CHR ''/'' (join ''/'' segs') out"
    by simp
  then obtain segs segs' out where
    "odysee_to_canonical lib_portal ?u1 = Inr (Some out)"
    "unquote lib_portal ''@chan:1/Item:abc123'' = join ''/'' segs"
    "list_all2 rewritten segs segs'" "trimmed CHR ''/'' (join ''/'' segs') out"
    by blast
  moreover have "unquote lib_portal ''@chan:1/Item:abc123'' = ''@chan:1/Item:abc123''"
    by (simp add: lib_portal_def)
  ultimately have e1: "\<exists>segs segs' out.
         odysee_to_canonical lib_portal ?u1 = Inr (Some out)
         \<and> ''@chan:1/Item:abc123'' = join ''/'' segs
         \<and> list_all2 rewritten segs segs'
         \<and> trimmed CHR ''/'' (join ''/'' segs') out"
    by metis
  from odysee_to_canonical_spec [of lib_portal "[]" ?u2 ?p2 "''Item:abc123''" ?p2] h2 t2 q2
  have r2: "odysee_to_canonical lib_portal ?u2 = Inr None" by simp
  from odysee_to_canonical_spec [of lib_portal "[]" ?u3 ?p3 "[]" ?p3] h3 t3 q3
  have r3: "odysee_to_canonical lib_portal ?u3 = Inr None" by simp
  from r1 r2 r3 e1 show ?thesis by simp
qed

text \<open>
  Claim C5 as stated fails: the test is on the whole netloc, not on the host. In
  \<open>https://odysee.com@evil.org/Item:abc\<close> the netloc is \<open>odysee.com@evil.org\<close>, where
  \<open>odysee.com\<close> is the user information and the host is \<open>evil.org\<close>, and the result is
  the identifier \<open>Item#abc\<close>, not \<open>None\<close>.
\<close>

theorem odysee_to_canonical_userinfo_counterexample:
  "urlparse lib_portal ''https://odysee.com@evil.org/Item:abc''
     = Inr \<lparr>scheme = ''https'', netloc = ''odysee.com@evil.org'', path = ''/Item:abc'',
            params = [], query = [], fragment = []\<rparr>
   \<and> host_of ''odysee.com@evil.org'' = ''evil.org''
   \<and> odysee_to_canonical lib_portal ''https://odysee.com@evil.org/Item:abc''
       = Inr (Some ''Item#abc'')"
proof -
  have "canonical_segment ''Item:abc'' = ''Item#abc''"
    using canonical_segment_rewrite [of "''Item''" "''abc''"] by simp
  moreover have "lower ''odysee.com@evil.org'' = ''odysee.com@evil.org''"
    "lower ''evil.org'' = ''evil.org''"
    by (simp_all add: lower_def lower_char_def)
  ultimately show ?thesis
    by (simp add: odysee_to_canonical_def lib_portal_def startswith_def str_in_eval
        strip_chars_def split_on_def host_of_def)
qed

section \<open>The download chain\<close>

lemma fallback_trace: "snd (fallback_lbry_get w uri) = [RpcPost ''get'' (get_params w uri)]"
  by (simp add: fallback_lbry_get_def call_lbry_rpc_def get_params_def
      split: prod.splits sum.splits option.splits pyval.splits)

text \<open>
  Claim C6. With the client module present: when Tier A raises an exception whose message
  contains \<open>Cannot establish connection\<close>, the download reports failure and the only call
  made is Tier A's, so the RPC fallback is not invoked. When Tier A raises any other
  exception, returns \<open>False\<close>, or returns a value that is neither a bool nor a dict, the
  result is that of \<open>fallback_lbry_get\<close>, and the RPC \<open>get\<close> call follows Tier A's call.
  When Tier A returns a dict, whatever its entries, the download reports success without the
  fallback.
\<close>

theorem download_chain:
  "lbryt w = Some download_single \<longrightarrow>
     (download_single uri (download_dir w) = Raises message
        \<and> str_in ''Cannot establish connection'' message
        \<longrightarrow> download_with_lbrytools w uri = (Inr False, [DownloadSingle uri (download_dir w)]))
     \<and> ((download_single uri (download_dir w) = Raises message
            \<and> \<not> str_in ''Cannot establish connection'' message)
         \<or> download_single uri (download_dir w) = Returns (PBool False)
         \<or> (download_single uri (download_dir w) = Returns v
              \<and> (\<forall>b. v \<noteq> PBool b) \<and> (\<forall>d. v \<noteq> PDict d))
        \<longrightarrow> download_with_lbrytools w uri
              = (fst (fallback_lbry_get w uri),
                 [DownloadSingle uri (download_dir w), RpcPost ''get'' (get_params w uri)]))
     \<and> (download_single uri (download_dir w) = Returns (PDict d)
        \<longrightarrow> download_with_lbrytools w uri = (Inr True, [DownloadSingle uri (download_dir w)]))"
proof (intro impI conjI)
  assume m: "lbryt w = Some download_single"
  {
    assume "download_single uri (download_dir w) = Raises message
        \<and> str_in ''Cannot establish connection'' message"
    with m show "download_with_lbrytools w uri = (Inr False, [DownloadSingle uri (download_dir w)])"
      by (simp add: download_with_lbrytools_def handle_lbry_error_def)
  next
    assume "download_single uri (download_dir w) = Returns (PDict d)"
    with m show "download_with_lbrytools w uri = (Inr True, [DownloadSingle uri (download_dir w)])"
      by (simp add: download_with_lbrytools_def)
  next
    assume "(download_single uri (download_dir w) = Raises message
            \<and> \<not> str_in ''Cannot establish connection'' message)
         \<or> download_single uri (download_dir w) = Returns (PBool False)
         \<or> (download_single uri (download_dir w) = Returns v
              \<and> (\<forall>b. v \<noteq> PBool b) \<and> (\<forall>d. v \<noteq> PDict d))"
    then consider
      (exc) "download_single uri (download_dir w) = Raises message"
        "\<not> str_in ''Cannot establish connection'' message"
      | (no) "download_single uri (download_dir w) = Returns (PBool False)"
      | (other) "download_single uri (download_dir w) = Returns v"
        "\<forall>b. v \<noteq> PBool b" "\<forall>d. v \<noteq> PDict d"
      by blast
    then have "download_with_lbrytools w uri
        = (fst (fallback_lbry_get w uri), DownloadSingle uri (download_dir w) # snd (fallback_lbry_get w uri))"
    proof cases
      case exc
      with m show ?thesis by (simp add: download_with_lbrytools_def handle_lbry_error_def)
    next
      case no
      with m show ?thesis by (simp add: download_with_lbrytools_def)
    next
      case other
      with m show ?thesis by (cases v) (auto simp: download_with_lbrytools_def)
    qed
    then show "download_with_lbrytools w uri
              = (fst (fallback_lbry_get w uri),
                 [DownloadSingle uri (download_dir w), RpcPost ''get'' (get_params w uri)])"
      by (simp add: fallback_trace)
  }
qed


theorem download_chain_witness:
  "download_with_lbrytools world_down ''foo/bar''
     = (Inr False, [DownloadSingle ''foo/bar'' ''/srv/lbry_downloads''])
   \<and> download_with_lbrytools (world_rpc (PDict [(''result'', PDict [(''download_path'', PStr ''/x'')])])) ''foo/bar''
     = (Inr True, [DownloadSingle ''foo/bar'' ''/srv/lbry_downloads'',
                   RpcPost ''get'' [(''uri'', PStr ''lbry://foo/bar''), (''save_file'', PBool True),
                                    (''download_dir'', PStr ''/srv/lbry_downloads'')]])"
proof -
  have "str_in ''Cannot establish connection'' ''Cannot establish connection to lbrynet''"
    by (simp add: str_in_eval)
  then have "download_with_lbrytools world_down ''foo/bar''
     = (Inr False, [DownloadSingle ''foo/bar'' ''/srv/lbry_downloads''])"
    using download_chain [of world_down "\<lambda>uri ddir. Raises ''Cannot establish connection to lbrynet''"
        "''foo/bar''" "''Cannot establish connection to lbrynet''"]
    by (simp add: world_down_def)
  moreover have "download_with_lbrytools (world_rpc (PDict [(''result'', PDict [(''download_path'', PStr ''/x'')])])) ''foo/bar''
     = (Inr True, [DownloadSingle ''foo/bar'' ''/srv/lbry_downloads'',
                   RpcPost ''get'' [(''uri'', PStr ''lbry://foo/bar''), (''save_file'', PBool True),
                                    (''download_dir'', PStr ''/srv/lbry_downloads'')]])"
    using download_chain [of "world_rpc (PDict [(''result'', PDict [(''download_path'', PStr ''/x'')])])"
        "\<lambda>uri ddir. Returns (PBool False)" "''foo/bar''"]
    by (simp add: world_rpc_def get_params_def fallback_lbry_get_def call_lbry_rpc_def)
  ultimately show ?thesis by simp
qed

section \<open>The RPC fallback\<close>

lemma call_cases:
  "fst (call_lbry_rpc w m ps) = Inr (Some r) \<longleftrightarrow>
     (\<exists>status kvs. rpc_post w m ps = Response status (Some (PDict kvs)) \<and> \<not> http_error status
        \<and> ''error'' \<notin> fst ` set kvs \<and> map_of kvs ''result'' = Some r \<and> r \<noteq> PNone)"
  by (auto simp: call_lbry_rpc_def http_error_def
      split: http_reply.splits option.splits sum.splits bool.splits pyval.splits)

lemma fallback_true:
  "fst (fallback_lbry_get w uri) = Inr True \<longleftrightarrow>
     (\<exists>r. fst (call_lbry_rpc w ''get'' (get_params w uri)) = Inr (Some (PDict r)) \<and> r \<noteq> [])"
  by (auto simp: fallback_lbry_get_def get_params_def
      split: prod.splits sum.splits option.splits pyval.splits if_splits)

lemma fallback_false:
  "fst (fallback_lbry_get w uri) = Inr False \<longleftrightarrow>
     (fst (call_lbry_rpc w ''get'' (get_params w uri)) = Inr None
      \<or> (\<exists>r. fst (call_lbry_rpc w ''get'' (get_params w uri)) = Inr (Some r) \<and> \<not> truthy r))"
  by (auto simp: fallback_lbry_get_def get_params_def
      split: prod.splits sum.splits option.splits pyval.splits if_splits)

lemma call_none:
  "rpc_post w m ps = RequestException
   \<or> (\<exists>status body. rpc_post w m ps = Response status body \<and>
        (http_error status \<or> body = None
         \<or> (\<exists>kvs. body = Some (PDict kvs) \<and>
              (''error'' \<in> fst ` set kvs \<or> map_of kvs ''result'' = None
               \<or> map_of kvs ''result'' = Some PNone))))
   \<Longrightarrow> fst (call_lbry_rpc w m ps) = Inr None"
  by (auto simp: call_lbry_rpc_def http_error_def
      split: http_reply.splits option.splits sum.splits bool.splits pyval.splits)

text \<open>
  Claim C7, as the code has it. \<open>fallback_lbry_get\<close> reports success if and only if the
  reply has no HTTP error status and its body is a JSON object without an \<open>error\<close> key
  whose \<open>result\<close> is a non-empty object. It reports failure on a transport error, an HTTP
  error status, a body that is not JSON, an \<open>error\<close> key, a missing \<open>result\<close>, and a
  \<open>result\<close> that is falsy: \<open>null\<close>, \<open>false\<close>, zero, or an empty string, list or object.
\<close>

theorem fallback_lbry_get_success:
  "(fst (fallback_lbry_get w uri) = Inr True \<longleftrightarrow>
      (\<exists>status kvs r. rpc_post w ''get'' (get_params w uri) = Response status (Some (PDict kvs))
         \<and> \<not> http_error status \<and> ''error'' \<notin> fst ` set kvs
         \<and> map_of kvs ''result'' = Some (PDict r) \<and> r \<noteq> []))
   \<and> (rpc_post w ''get'' (get_params w uri) = RequestException
       \<or> (\<exists>status body. rpc_post w ''get'' (get_params w uri) = Response status body \<and>
            (http_error status \<or> body = None
             \<or> (\<exists>kvs. body = Some (PDict kvs) \<and>
                  (''error'' \<in> fst ` set kvs \<or> map_of kvs ''result'' = None
                   \<or> (\<exists>r. map_of kvs ''result'' = Some r \<and> \<not> truthy r)))))
       \<longrightarrow> fst (fallback_lbry_get w uri) = Inr False)"
proof (intro conjI impI)
  show "fst (fallback_lbry_get w uri) = Inr True \<longleftrightarrow>
      (\<exists>status kvs r. rpc_post w ''get'' (get_params w uri) = Response status (Some (PDict kvs))
         \<and> \<not> http_error status \<and> ''error'' \<notin> fst ` set kvs
         \<and> map_of kvs ''result'' = Some (PDict r) \<and> r \<noteq> [])"
    unfolding fallback_true call_cases by auto
next
  assume a: "rpc_post w ''get'' (get_params w uri) = RequestException
       \<or> (\<exists>status body. rpc_post w ''get'' (get_params w uri) = Response status body \<and>
            (http_error status \<or> body = None
             \<or> (\<exists>kvs. body = Some (PDict kvs) \<and>
                  (''error'' \<in> fst ` set kvs \<or> map_of kvs ''result'' = None
                   \<or> (\<exists>r. map_of kvs ''result'' = Some r \<and> \<not> truthy r)))))"
  let ?reply = "rpc_post w ''get'' (get_params w uri)"
  let ?call = "fst (call_lbry_rpc w ''get'' (get_params w uri))"
  from a consider
    (none) "?reply = RequestException
       \<or> (\<exists>status body. ?reply = Response status body \<and>
            (http_error status \<or> body = None
             \<or> (\<exists>kvs. body = Some (PDict kvs) \<and>
                  (''error'' \<in> fst ` set kvs \<or> map_of kvs ''result'' = None
                   \<or> map_of kvs ''result'' = Some PNone))))"
    | (falsy) status kvs r where "?reply = Response status (Some (PDict kvs))"
        "\<not> http_error status" "''error'' \<notin> fst ` set kvs"
        "map_of kvs ''result'' = Some r" "r \<noteq> PNone" "\<not> truthy r"
    by blast
  then show "fst (fallback_lbry_get w uri) = Inr False"
  proof cases
    case none
    then have "?call = Inr None" by (rule call_none)
    then show ?thesis by (simp add: fallback_false)
  next
    case falsy
    then have "?call = Inr (Some r)" unfolding call_cases by blast
    with falsy(6) show ?thesis unfolding fallback_false by blast
  qed
qed

theorem fallback_lbry_get_success_witness:
  "fst (fallback_lbry_get (world_rpc (PDict [(''result'', PDict [(''download_path'', PStr ''/x'')])])) ''foo/bar'')
     = Inr True
   \<and> fst (fallback_lbry_get (world_rpc (PDict [(''error'', PDict [(''code'', PInt 1)]), (''result'', PDict [(''download_path'', PStr ''/x'')])])) ''foo/bar'')
     = Inr False"
proof -
  let ?ok = "world_rpc (PDict [(''result'', PDict [(''download_path'', PStr ''/x'')])])"
  let ?err = "world_rpc (PDict [(''error'', PDict [(''code'', PInt 1)]), (''result'', PDict [(''download_path'', PStr ''/x'')])])"
  have "fst (fallback_lbry_get ?ok ''foo/bar'') = Inr True"
    using fallback_lbry_get_success [of ?ok "''foo/bar''"]
    by (simp add: world_rpc_def http_error_def)
  moreover have "fst (fallback_lbry_get ?err ''foo/bar'') = Inr False"
    using fallback_lbry_get_success [of ?err "''foo/bar''"]
    by (simp add: world_rpc_def http_error_def)
  ultimately show ?thesis by simp
qed

text \<open>
  Claim C7 as stated fails: the reply \<open>{"result": {}}\<close> holds a \<open>result\<close> object and no
  \<open>error\<close> key, and the fallback reports failure, because \<open>if not rpc_result\<close> rejects the
  empty dict.
\<close>

theorem fallback_lbry_get_empty_result_counterexample:
  "rpc_post (world_rpc (PDict [(''result'', PDict [])])) ''get''
       (get_params (world_rpc (PDict [(''result'', PDict [])])) ''foo/bar'')
     = Response 200 (Some (PDict [(''result'', PDict [])]))
   \<and> fst (fallback_lbry_get (world_rpc (PDict [(''result'', PDict [])])) ''foo/bar'') = Inr False"
  by (simp add: world_rpc_def fallback_lbry_get_def call_lbry_rpc_def)

text \<open>
  A \<open>result\<close> that is truthy and not an object has no \<open>get\<close>: the fallback raises
  \<open>AttributeError\<close>.
\<close>

lemma fallback_non_dict_result_raises:
  "fst (fallback_lbry_get (world_rpc (PDict [(''result'', PStr ''ok'')])) ''foo/bar'') = Inl AttributeError"
  by (simp add: world_rpc_def fallback_lbry_get_def call_lbry_rpc_def)

section \<open>Stage 2: what a run writes\<close>

lemma extract_ext_links_total: "\<exists>refs. extract_ext_links lib soup = Inr refs"
proof -
  have "\<forall>a \<in> set (find_all (\<lambda>t. is_tag [''a''] t \<and> href_marker t) soup). href_marker a"
    by (simp add: find_all_def)
  from ext_links_loop_spec [OF this, of lib "[]"] show ?thesis
    by (auto simp: extract_ext_links_def)
qed

lemma insert_exturls_append:
  "\<exists>new. insert_exturls now i exts rows = rows @ new \<and> length new = length exts
     \<and> (\<forall>e \<in> set new. e_link_id e = Some i)"
proof (induction exts arbitrary: rows)
  case Nil
  then show ?case by simp
next
  case (Cons ext exts)
  let ?row = "\<lparr>e_id = next_rowid (map e_id rows), e_link_id = Some i,
                  e_external_url = external_url ext, e_source_href = source_href ext,
                  e_link_text = link_text ext, e_scraped_at = now\<rparr>"
  from Cons.IH [of "rows @ [?row]"] obtain new where
    new: "insert_exturls now i exts (rows @ [?row]) = (rows @ [?row]) @ new"
      "length new = length exts" "\<forall>e \<in> set new. e_link_id e = Some i" by blast
  have "insert_exturls now i (ext # exts) rows = rows @ (?row # new)" using new(1) by simp
  moreover have "length (?row # new) = length (ext # exts)" using new(2) by simp
  moreover have "\<forall>e \<in> set (?row # new). e_link_id e = Some i" using new(3) by simp
  ultimately show ?case by blast
qed

lemma scrape_detail_failed:
  "fetch url = [] \<Longrightarrow>
     scrape_detail lib fetch now self i url = (None, self\<lparr>failed_deep := failed_deep self @ [url]\<rparr>)"
  by (simp add: scrape_detail_def)

lemma scrape_detail_fetched:
  assumes "fetch url \<noteq> []"
    and "extract_ext_links lib (BeautifulSoup lib (fetch url)) = Inr refs"
  shows "scrape_detail lib fetch now self i url =
     (None, self\<lparr>db := (db self)
        \<lparr>details_tbl :=
           (if extract_description (BeautifulSoup lib (fetch url)) \<noteq> []
            then insert_or_replace_detail now i (extract_description (BeautifulSoup lib (fetch url)))
                   (details_tbl (db self))
            else details_tbl (db self)),
         exturl_tbl := insert_exturls now i refs (exturl_tbl (db self))\<rparr>\<rparr>)"
  using assms by (simp add: scrape_detail_def Let_def)

lemma scrape_detail_other:
  assumes "scrape_detail lib fetch now self i url = (e, self')"
  shows "e = None" and "links_tbl (db self') = links_tbl (db self)"
    and "j \<noteq> i \<Longrightarrow> detail_rows j (db self') = detail_rows j (db self)"
    and "j \<noteq> i \<Longrightarrow> exturl_rows j (db self') = exturl_rows j (db self)"
proof -
  obtain refs where refs: "extract_ext_links lib (BeautifulSoup lib (fetch url)) = Inr refs"
    using extract_ext_links_total by blast
  obtain new where new: "insert_exturls now i refs (exturl_tbl (db self)) = exturl_tbl (db self) @ new"
    "\<forall>e \<in> set new. e_link_id e = Some i"
    using insert_exturls_append by blast
  have "e = None \<and> links_tbl (db self') = links_tbl (db self)
      \<and> (j \<noteq> i \<longrightarrow> detail_rows j (db self') = detail_rows j (db self))
      \<and> (j \<noteq> i \<longrightarrow> exturl_rows j (db self') = exturl_rows j (db self))"
  proof (cases "fetch url = []")
    case True
    with assms show ?thesis by (auto simp: scrape_detail_failed)
  next
    case False
    have "filter (\<lambda>e. e_link_id e = Some j) new = []" if "j \<noteq> i"
      using new(2) that by (auto simp: filter_empty_conv)
    moreover have "filter (\<lambda>d. d_link_id d = Some j) (filter (\<lambda>d. d_link_id d \<noteq> Some i) ds)
        = filter (\<lambda>d. d_link_id d = Some j) ds" if "j \<noteq> i" for ds
      using that by (induction ds) auto
    ultimately show ?thesis
      using assms
      unfolding scrape_detail_fetched [where fetch = fetch and url = url, OF False refs]
      by (auto simp: detail_rows_def exturl_rows_def new(1) insert_or_replace_detail_def)
  qed
  then show "e = None" and "links_tbl (db self') = links_tbl (db self)"
    and "j \<noteq> i \<Longrightarrow> detail_rows j (db self') = detail_rows j (db self)"
    and "j \<noteq> i \<Longrightarrow> exturl_rows j (db self') = exturl_rows j (db self)" by simp_all
qed


lemma run_details_step:
  "\<exists>self1. scrape_detail lib fetch now self (fst w) (snd w) = (None, self1)
      \<and> run_details lib fetch now (w # ws) self = run_details lib fetch now ws self1"
proof -
  obtain e self1 where r: "scrape_detail lib fetch now self (fst w) (snd w) = (e, self1)"
    by (cases "scrape_detail lib fetch now self (fst w) (snd w)")
  from scrape_detail_other(1) [OF r] r show ?thesis by simp
qed

lemma run_details_frame:
  "fst (run_details lib fetch now ws self) = None
   \<and> links_tbl (db (snd (run_details lib fetch now ws self))) = links_tbl (db self)"
proof (induction ws arbitrary: self)
  case Nil
  then show ?case by simp
next
  case (Cons w ws)
  from run_details_step [of lib fetch now self w ws] obtain self1 where
    s: "scrape_detail lib fetch now self (fst w) (snd w) = (None, self1)"
    and r: "run_details lib fetch now (w # ws) self = run_details lib fetch now ws self1" by blast
  from scrape_detail_other(2) [OF s] Cons.IH [of self1] show ?case unfolding r by simp
qed

lemma scrape_detail_failed_deep_mono:
  assumes "scrape_detail lib fetch now self i url = (e, self')"
  shows "set (failed_deep self) \<subseteq> set (failed_deep self')"
    and "fetch url = [] \<Longrightarrow> url \<in> set (failed_deep self')"
proof -
  obtain refs where refs: "extract_ext_links lib (BeautifulSoup lib (fetch url)) = Inr refs"
    using extract_ext_links_total by blast
  have "set (failed_deep self) \<subseteq> set (failed_deep self')
      \<and> (fetch url = [] \<longrightarrow> url \<in> set (failed_deep self'))"
  proof (cases "fetch url = []")
    case True
    with assms show ?thesis by (auto simp: scrape_detail_failed)
  next
    case False
    with assms show ?thesis
      unfolding scrape_detail_fetched [where fetch = fetch and url = url, OF False refs] by auto
  qed
  then show "set (failed_deep self) \<subseteq> set (failed_deep self')"
    and "fetch url = [] \<Longrightarrow> url \<in> set (failed_deep self')" by simp_all
qed

lemma run_details_failed_mono:
  "set (failed_deep self) \<subseteq> set (failed_deep (snd (run_details lib fetch now ws self)))"
proof (induction ws arbitrary: self)
  case Nil
  then show ?case by simp
next
  case (Cons w ws)
  from run_details_step [of lib fetch now self w ws] obtain self1 where
    s: "scrape_detail lib fetch now self (fst w) (snd w) = (None, self1)"
    and r: "run_details lib fetch now (w # ws) self = run_details lib fetch now ws self1" by blast
  from scrape_detail_failed_deep_mono(1) [OF s] Cons.IH [of self1] show ?case unfolding r by blast
qed

lemma run_details_failed:
  "w \<in> set ws \<Longrightarrow> fetch (snd w) = []
     \<Longrightarrow> snd w \<in> set (failed_deep (snd (run_details lib fetch now ws self)))"
proof (induction ws arbitrary: self)
  case Nil
  then show ?case by simp
next
  case (Cons x ws)
  from run_details_step [of lib fetch now self x ws] obtain self1 where
    s: "scrape_detail lib fetch now self (fst x) (snd x) = (None, self1)"
    and r: "run_details lib fetch now (x # ws) self = run_details lib fetch now ws self1" by blast
  show ?case
  proof (cases "w = x")
    case True
    with Cons.prems(2) scrape_detail_failed_deep_mono(2) [OF s]
    have "snd w \<in> set (failed_deep self1)" by simp
    with run_details_failed_mono [of self1 lib fetch now ws] show ?thesis unfolding r by blast
  next
    case False
    with Cons.prems have "w \<in> set ws" by simp
    from Cons.IH [OF this Cons.prems(2), of self1] show ?thesis unfolding r .
  qed
qed

lemma scrape_detail_own:
  assumes "scrape_detail lib fetch now self i url = (e, self')"
  shows "fetch url = [] \<Longrightarrow> db self' = db self"
    and "fetch url \<noteq> [] \<Longrightarrow> extract_description (BeautifulSoup lib (fetch url)) = []
          \<Longrightarrow> details_tbl (db self') = details_tbl (db self)"
    and "fetch url \<noteq> [] \<Longrightarrow> extract_ext_links lib (BeautifulSoup lib (fetch url)) = Inr refs
          \<Longrightarrow> length (exturl_rows i (db self')) = length (exturl_rows i (db self)) + length refs"
proof -
  show "db self' = db self" if "fetch url = []"
    using assms that by (auto simp: scrape_detail_failed)
  show "details_tbl (db self') = details_tbl (db self)"
    if "fetch url \<noteq> []" "extract_description (BeautifulSoup lib (fetch url)) = []"
  proof -
    obtain refs' where refs': "extract_ext_links lib (BeautifulSoup lib (fetch url)) = Inr refs'"
      using extract_ext_links_total by blast
    from assms that(2) show ?thesis
      unfolding scrape_detail_fetched [where fetch = fetch and url = url, OF that(1) refs'] by auto
  qed
  show "length (exturl_rows i (db self')) = length (exturl_rows i (db self)) + length refs"
    if "fetch url \<noteq> []" "extract_ext_links lib (BeautifulSoup lib (fetch url)) = Inr refs"
  proof -
    obtain new where new: "insert_exturls now i refs (exturl_tbl (db self)) = exturl_tbl (db self) @ new"
      "length new = length refs" "\<forall>e \<in> set new. e_link_id e = Some i"
      using insert_exturls_append by blast
    from new(3) have "filter (\<lambda>e. e_link_id e = Some i) new = new" by (simp add: filter_id_conv)
    with assms new(1,2) show ?thesis
      unfolding scrape_detail_fetched [where fetch = fetch and url = url, OF that]
      by (auto simp: exturl_rows_def)
  qed
qed


lemma run_details_untouched:
  assumes "\<forall>w \<in> set ws. fst w = i \<longrightarrow> fetch (snd w) = []"
  shows "detail_rows i (db (snd (run_details lib fetch now ws self))) = detail_rows i (db self)
       \<and> exturl_rows i (db (snd (run_details lib fetch now ws self))) = exturl_rows i (db self)"
  using assms
proof (induction ws arbitrary: self)
  case Nil
  then show ?case by simp
next
  case (Cons w ws)
  from run_details_step [of lib fetch now self w ws] obtain self1 where
    s: "scrape_detail lib fetch now self (fst w) (snd w) = (None, self1)"
    and r: "run_details lib fetch now (w # ws) self = run_details lib fetch now ws self1" by blast
  have "detail_rows i (db self1) = detail_rows i (db self)
      \<and> exturl_rows i (db self1) = exturl_rows i (db self)"
  proof (cases "fst w = i")
    case True
    with Cons.prems have "fetch (snd w) = []" by simp
    from scrape_detail_own(1) [OF s this] show ?thesis by simp
  next
    case False
    then have "i \<noteq> fst w" by simp
    from scrape_detail_other(3,4) [OF s this] show ?thesis by simp
  qed
  moreover from Cons.prems have "\<forall>w \<in> set ws. fst w = i \<longrightarrow> fetch (snd w) = []" by simp
  from Cons.IH [OF this, of self1]
  have "detail_rows i (db (snd (run_details lib fetch now ws self1))) = detail_rows i (db self1)
       \<and> exturl_rows i (db (snd (run_details lib fetch now ws self1))) = exturl_rows i (db self1)" .
  ultimately show ?case unfolding r by simp
qed

lemma run_details_rescrape:
  assumes "\<forall>w \<in> set ws. fst w = i \<longrightarrow> snd w = u"
    and "fetch u \<noteq> []"
    and "extract_description (BeautifulSoup lib (fetch u)) = []"
    and "extract_ext_links lib (BeautifulSoup lib (fetch u)) = Inr refs"
  shows "detail_rows i (db (snd (run_details lib fetch now ws self))) = detail_rows i (db self)
       \<and> length (exturl_rows i (db (snd (run_details lib fetch now ws self))))
           = length (exturl_rows i (db self)) + length (filter (\<lambda>w. fst w = i) ws) * length refs"
  using assms(1)
proof (induction ws arbitrary: self)
  case Nil
  then show ?case by simp
next
  case (Cons w ws)
  from run_details_step [of lib fetch now self w ws] obtain self1 where
    s: "scrape_detail lib fetch now self (fst w) (snd w) = (None, self1)"
    and r: "run_details lib fetch now (w # ws) self = run_details lib fetch now ws self1" by blast
  have step: "detail_rows i (db self1) = detail_rows i (db self)
      \<and> length (exturl_rows i (db self1))
          = length (exturl_rows i (db self)) + (if fst w = i then length refs else 0)"
  proof (cases "fst w = i")
    case True
    with Cons.prems have u: "snd w = u" by simp
    from s have s': "scrape_detail lib fetch now self i u = (None, self1)"
      unfolding True u .
    from scrape_detail_own(2) [OF s' assms(2,3)] scrape_detail_own(3) [OF s' assms(2,4)] True
    show ?thesis by (simp add: detail_rows_def)
  next
    case False
    then have "i \<noteq> fst w" by simp
    from scrape_detail_other(3,4) [OF s this] False show ?thesis by simp
  qed
  from Cons.prems have "\<forall>w \<in> set ws. fst w = i \<longrightarrow> snd w = u" by simp
  from Cons.IH [OF this, of self1] step show ?case unfolding r by simp
qed

lemma get_unscraped_mem:
  "(i, u) \<in> set (get_unscraped self) \<longleftrightarrow>
     (\<exists>l \<in> set (links_tbl (db self)). l_id l = i \<and> l_link l = u) \<and> detail_rows i (db self) = []"
  unfolding get_unscraped_eq detail_rows_def by (auto simp: filter_empty_conv)

lemma get_unscraped_distinct:
  assumes "distinct (map l_id (links_tbl (db self)))"
  shows "distinct (map fst (get_unscraped self))"
proof -
  have "map fst (get_unscraped self)
      = map l_id (filter (\<lambda>l. \<not> (\<exists>d \<in> set (details_tbl (db self)). d_link_id d = Some (l_id l)))
                   (links_tbl (db self)))"
    unfolding get_unscraped_eq by simp
  with assms show ?thesis by (simp add: distinct_map_filter)
qed

lemma distinct_fst_filter:
  "distinct (map fst ws) \<Longrightarrow> (i, u) \<in> set ws \<Longrightarrow> filter (\<lambda>w. fst w = i) ws = [(i, u)]"
proof (induction ws)
  case Nil
  then show ?case by simp
next
  case (Cons w ws)
  show ?case
  proof (cases "w = (i, u)")
    case True
    with Cons.prems(1) have "\<forall>x \<in> set ws. fst x \<noteq> i" by force
    then have "filter (\<lambda>w. fst w = i) ws = []" by (simp add: filter_empty_conv)
    with True show ?thesis by simp
  next
    case False
    with Cons.prems have mem: "(i, u) \<in> set ws" and d: "distinct (map fst ws)" by simp_all
    then have "i \<in> fst ` set ws" by force
    with Cons.prems(1) have "fst w \<noteq> i" by auto
    with Cons.IH [OF d mem] show ?thesis by simp
  qed
qed

lemma scheduled_work:
  assumes "distinct (map l_id (links_tbl (db self)))"
    and "mset ws = mset (get_unscraped self)"
    and "(i, u) \<in> set (get_unscraped self)"
  shows "(i, u) \<in> set ws" and "\<forall>w \<in> set ws. fst w = i \<longrightarrow> snd w = u"
    and "length (filter (\<lambda>w. fst w = i) ws) = 1"
proof -
  have eq: "set ws = set (get_unscraped self)" using assms(2) by (rule mset_eq_setD)
  with assms(3) show "(i, u) \<in> set ws" by simp
  have f: "filter (\<lambda>w. fst w = i) (get_unscraped self) = [(i, u)]"
    using distinct_fst_filter [OF get_unscraped_distinct [OF assms(1)] assms(3)] .
  show "\<forall>w \<in> set ws. fst w = i \<longrightarrow> snd w = u"
  proof (intro ballI impI)
    fix w assume "w \<in> set ws" "fst w = i"
    then have "w \<in> set (filter (\<lambda>w. fst w = i) (get_unscraped self))" using eq by simp
    then show "snd w = u" unfolding f by simp
  qed
  have "mset (filter (\<lambda>w. fst w = i) ws) = mset (filter (\<lambda>w. fst w = i) (get_unscraped self))"
    using assms(2) by simp
  then have "length (filter (\<lambda>w. fst w = i) ws) = length (filter (\<lambda>w. fst w = i) (get_unscraped self))"
    by (rule mset_eq_length)
  then show "length (filter (\<lambda>w. fst w = i) ws) = 1" unfolding f by simp
qed

lemma stage2_deep_run:
  "(i, u) \<in> set (get_unscraped self) \<Longrightarrow>
     stage2_deep lib fetch now sched self = run_details lib fetch now (sched (get_unscraped self)) self"
  by (auto simp: stage2_deep_def Let_def)


text \<open>
  Claim C8. When the fetch of an item returns empty content, \<open>scrape_detail\<close> raises
  nothing, appends the url to \<open>failed_deep\<close> and leaves the store as it was. In a whole run
  of Stage 2 over a store whose listing ids are distinct, in any order of the calls, such an
  item of the work set has its url in the failure list afterwards, has no \<open>details\<close> row,
  has the \<open>exturl\<close> rows it had before, and is in the work set of the next run.
\<close>

theorem empty_fetch_writes_nothing:
  "(fetch url = [] \<longrightarrow>
      scrape_detail lib fetch now self link_id url
        = (None, self\<lparr>failed_deep := failed_deep self @ [url]\<rparr>))
   \<and> (fetch url = [] \<and> distinct (map l_id (links_tbl (db self)))
        \<and> mset (sched (get_unscraped self)) = mset (get_unscraped self)
        \<and> (link_id, url) \<in> set (get_unscraped self)
      \<longrightarrow> fst (stage2_deep lib fetch now sched self) = None
          \<and> url \<in> set (failed_deep (snd (stage2_deep lib fetch now sched self)))
          \<and> detail_rows link_id (db (snd (stage2_deep lib fetch now sched self))) = []
          \<and> exturl_rows link_id (db (snd (stage2_deep lib fetch now sched self)))
              = exturl_rows link_id (db self)
          \<and> (link_id, url) \<in> set (get_unscraped (snd (stage2_deep lib fetch now sched self))))"
proof (intro conjI impI)
  assume "fetch url = []"
  then show "scrape_detail lib fetch now self link_id url
        = (None, self\<lparr>failed_deep := failed_deep self @ [url]\<rparr>)"
    by (rule scrape_detail_failed)
next
  assume a: "fetch url = [] \<and> distinct (map l_id (links_tbl (db self)))
        \<and> mset (sched (get_unscraped self)) = mset (get_unscraped self)
        \<and> (link_id, url) \<in> set (get_unscraped self)"
  let ?ws = "sched (get_unscraped self)"
  let ?out = "stage2_deep lib fetch now sched self"
  from a have empty: "fetch url = []" and ids: "distinct (map l_id (links_tbl (db self)))"
    and perm: "mset ?ws = mset (get_unscraped self)"
    and work: "(link_id, url) \<in> set (get_unscraped self)" by simp_all
  have run: "?out = run_details lib fetch now ?ws self" using work by (rule stage2_deep_run)
  note sw = scheduled_work [OF ids perm work]
  show "fst ?out = None" unfolding run using run_details_frame by blast
  show failed: "url \<in> set (failed_deep (snd ?out))"
    unfolding run using run_details_failed [OF sw(1), of fetch lib now self] empty by simp
  have "\<forall>w \<in> set ?ws. fst w = link_id \<longrightarrow> fetch (snd w) = []" using sw(2) empty by auto
  from run_details_untouched [OF this, of lib now self]
  have rows: "detail_rows link_id (db (snd ?out)) = detail_rows link_id (db self)"
    "exturl_rows link_id (db (snd ?out)) = exturl_rows link_id (db self)"
    unfolding run by simp_all
  from work have before: "\<exists>l \<in> set (links_tbl (db self)). l_id l = link_id \<and> l_link l = url"
    "detail_rows link_id (db self) = []" unfolding get_unscraped_mem by simp_all
  show "detail_rows link_id (db (snd ?out)) = []" using rows(1) before(2) by simp
  show "exturl_rows link_id (db (snd ?out)) = exturl_rows link_id (db self)" by (rule rows(2))
  have "links_tbl (db (snd ?out)) = links_tbl (db self)"
    unfolding run using run_details_frame by blast
  with before rows(1) show "(link_id, url) \<in> set (get_unscraped (snd ?out))"
    unfolding get_unscraped_mem by simp
qed

theorem empty_fetch_writes_nothing_witness:
  "''https://guncadindex.com/detail/a''
     \<in> set (failed_deep (snd (stage2_deep (lib_detail soup_detail) fetch_b 7 rev (new_scraper store2))))
   \<and> (1, ''https://guncadindex.com/detail/a'')
     \<in> set (get_unscraped (snd (stage2_deep (lib_detail soup_detail) fetch_b 7 rev (new_scraper store2))))
   \<and> exturl_rows 1 (db (snd (stage2_deep (lib_detail soup_detail) fetch_b 7 rev (new_scraper store2)))) = []"
proof -
  have ws: "get_unscraped (new_scraper store2)
      = [(1, ''https://guncadindex.com/detail/a''), (2, ''https://guncadindex.com/detail/b'')]"
    by (simp add: get_unscraped_def left_join_def new_scraper_def store2_def joined_link_id_def)
  have "fetch_b ''https://guncadindex.com/detail/a'' = []" by (simp add: fetch_b_def)
  moreover have "distinct (map l_id (links_tbl (db (new_scraper store2))))"
    by (simp add: new_scraper_def store2_def)
  moreover have "mset (rev (get_unscraped (new_scraper store2))) = mset (get_unscraped (new_scraper store2))"
    by simp
  moreover have "(1, ''https://guncadindex.com/detail/a'') \<in> set (get_unscraped (new_scraper store2))"
    unfolding ws by simp
  moreover have "exturl_rows 1 (db (new_scraper store2)) = []"
    by (simp add: exturl_rows_def new_scraper_def store2_def)
  ultimately show ?thesis
    using empty_fetch_writes_nothing [of fetch_b "''https://guncadindex.com/detail/a''"
        "lib_detail soup_detail" 7 "new_scraper store2" 1 rev]
    by simp
qed

text \<open>
  The scenario of the specification: two undetailed listings, the fetch of the first fails.
  The store ends with one detail row and the failure list with one url.
\<close>

lemmas str_eval = startswith_def str_in_eval isspace_def strip_def strip_chars_def split_on_def
lemmas soup_eval = find_all_def find_first_def has_class_def class_list_def class_matches_def
  get_text_strip_def href_marker_def u_param_def extract_ext_links_def extract_description_def

lemma stage2_scenario:
  "stage2_deep (lib_detail soup_detail) fetch_b 7 rev (new_scraper store2)
    = (None,
       \<lparr>links = [], failed_deep = [''https://guncadindex.com/detail/a''],
        db = \<lparr>links_tbl = links_tbl store2,
              details_tbl = [\<lparr>d_id = 1, d_link_id = Some 2, d_description = ''A part'', d_scraped_at = 7\<rparr>],
              exturl_tbl = [\<lparr>e_id = 1, e_link_id = Some 2, e_external_url = ''https://odysee.com/Item:abc'',
                 e_source_href = ''/out/?u=https%3A%2F%2Fodysee.com%2FItem%3Aabc'',
                 e_link_text = ''Get it'', e_scraped_at = 7\<rparr>]\<rparr>\<rparr>)"
proof -
  have ws: "get_unscraped (new_scraper store2)
      = [(1, ''https://guncadindex.com/detail/a''), (2, ''https://guncadindex.com/detail/b'')]"
    by (simp add: get_unscraped_def left_join_def new_scraper_def store2_def joined_link_id_def)
  have d: "extract_description soup_detail = ''A part''"
    by (simp add: soup_detail_def soup_eval str_eval)
  have r: "extract_ext_links (lib_detail soup_detail) soup_detail
     = Inr [\<lparr>external_url = ''https://odysee.com/Item:abc'',
             source_href = ''/out/?u=https%3A%2F%2Fodysee.com%2FItem%3Aabc'',
             link_text = ''Get it''\<rparr>]"
    by (simp add: lib_detail_def soup_detail_def soup_eval str_eval)
  have p: "BeautifulSoup (lib_detail soup_detail) h = soup_detail" for h
    by (simp add: lib_detail_def)
  have fa: "fetch_b ''https://guncadindex.com/detail/a'' = []"
    and fb: "fetch_b ''https://guncadindex.com/detail/b'' = ''<html>''"
    by (simp_all add: fetch_b_def)
  have sa: "scrape_detail (lib_detail soup_detail) fetch_b 7 s 1 ''https://guncadindex.com/detail/a''
      = (None, s\<lparr>failed_deep := failed_deep s @ [''https://guncadindex.com/detail/a'']\<rparr>)" for s
    using fa by (rule scrape_detail_failed)
  have sb: "scrape_detail (lib_detail soup_detail) fetch_b 7 (new_scraper store2) 2 ''https://guncadindex.com/detail/b''
      = (None, (new_scraper store2)\<lparr>db := store2
          \<lparr>details_tbl := [\<lparr>d_id = 1, d_link_id = Some 2, d_description = ''A part'', d_scraped_at = 7\<rparr>],
           exturl_tbl := [\<lparr>e_id = 1, e_link_id = Some 2, e_external_url = ''https://odysee.com/Item:abc'',
                 e_source_href = ''/out/?u=https%3A%2F%2Fodysee.com%2FItem%3Aabc'',
                 e_link_text = ''Get it'', e_scraped_at = 7\<rparr>]\<rparr>\<rparr>)"
    by (simp add: scrape_detail_def fb p d r insert_or_replace_detail_def next_rowid_def
        new_scraper_def store2_def)
  show ?thesis
    by (simp add: stage2_deep_def ws sa sb) (simp add: new_scraper_def store2_def)
qed

text \<open>
  Claim C10. For an item whose page is fetched, has an empty description and holds the
  references \<open>refs\<close>: \<open>scrape_detail\<close> writes no \<open>details\<close> row and inserts one \<open>exturl\<close>
  row for each reference. Over a store with distinct listing ids, after \<open>n\<close> runs of
  Stage 2, in any order of the calls, the item is still in the work set, still has no
  \<open>details\<close> row, and has \<open>n * length refs\<close> more \<open>exturl\<close> rows than at the start; when
  the page holds a reference, the number of its rows exceeds every bound.
\<close>

theorem empty_description_rescraped:
  "(fetch url \<noteq> [] \<and> extract_description (BeautifulSoup lib (fetch url)) = []
      \<and> extract_ext_links lib (BeautifulSoup lib (fetch url)) = Inr refs
     \<longrightarrow> scrape_detail lib fetch (now 0) self link_id url
          = (None, self\<lparr>db := (db self)
               \<lparr>exturl_tbl := insert_exturls (now 0) link_id refs (exturl_tbl (db self))\<rparr>\<rparr>))
   \<and> (fetch url \<noteq> [] \<and> extract_description (BeautifulSoup lib (fetch url)) = []
      \<and> extract_ext_links lib (BeautifulSoup lib (fetch url)) = Inr refs
      \<and> distinct (map l_id (links_tbl st))
      \<and> (\<forall>k ws. mset (sched k ws) = mset ws)
      \<and> (link_id, url) \<in> set (get_unscraped (new_scraper st))
     \<longrightarrow> (link_id, url) \<in> set (get_unscraped (new_scraper (deep_runs lib fetch now sched n st)))
         \<and> detail_rows link_id (deep_runs lib fetch now sched n st) = []
         \<and> length (exturl_rows link_id (deep_runs lib fetch now sched n st))
             = length (exturl_rows link_id st) + n * length refs
         \<and> (refs \<noteq> [] \<longrightarrow>
               (\<forall>bound. \<exists>m. bound < length (exturl_rows link_id (deep_runs lib fetch now sched m st)))))"
proof (intro conjI impI)
  assume "fetch url \<noteq> [] \<and> extract_description (BeautifulSoup lib (fetch url)) = []
      \<and> extract_ext_links lib (BeautifulSoup lib (fetch url)) = Inr refs"
  then show "scrape_detail lib fetch (now 0) self link_id url
          = (None, self\<lparr>db := (db self)
               \<lparr>exturl_tbl := insert_exturls (now 0) link_id refs (exturl_tbl (db self))\<rparr>\<rparr>)"
    using scrape_detail_fetched [where fetch = fetch and url = url and lib = lib and refs = refs]
    by simp
next
  assume a: "fetch url \<noteq> [] \<and> extract_description (BeautifulSoup lib (fetch url)) = []
      \<and> extract_ext_links lib (BeautifulSoup lib (fetch url)) = Inr refs
      \<and> distinct (map l_id (links_tbl st))
      \<and> (\<forall>k ws. mset (sched k ws) = mset ws)
      \<and> (link_id, url) \<in> set (get_unscraped (new_scraper st))"
  then have page: "fetch url \<noteq> []" "extract_description (BeautifulSoup lib (fetch url)) = []"
    "extract_ext_links lib (BeautifulSoup lib (fetch url)) = Inr refs"
    and ids: "distinct (map l_id (links_tbl st))"
    and perm: "\<And>k ws. mset (sched k ws) = mset ws"
    and work: "(link_id, url) \<in> set (get_unscraped (new_scraper st))" by simp_all
  have inv: "links_tbl (deep_runs lib fetch now sched m st) = links_tbl st
      \<and> detail_rows link_id (deep_runs lib fetch now sched m st) = []
      \<and> length (exturl_rows link_id (deep_runs lib fetch now sched m st))
             = length (exturl_rows link_id st) + m * length refs" for m
  proof (induction m)
    case 0
    from work show ?case unfolding get_unscraped_mem by (simp add: new_scraper_def)
  next
    case (Suc m)
    let ?st = "deep_runs lib fetch now sched m st"
    let ?self = "new_scraper ?st"
    let ?ws = "sched m (get_unscraped ?self)"
    have db: "db ?self = ?st" by (simp add: new_scraper_def)
    from work have "\<exists>l \<in> set (links_tbl st). l_id l = link_id \<and> l_link l = url"
      unfolding get_unscraped_mem by (simp add: new_scraper_def)
    with Suc.IH have w: "(link_id, url) \<in> set (get_unscraped ?self)"
      unfolding get_unscraped_mem db by simp
    have ids': "distinct (map l_id (links_tbl (db ?self)))" using ids Suc.IH db by simp
    note sw = scheduled_work [OF ids' perm [of m "get_unscraped ?self"] w]
    have run: "stage2_deep lib fetch (now m) (sched m) ?self
        = run_details lib fetch (now m) ?ws ?self" using w by (rule stage2_deep_run)
    from run_details_rescrape [where fetch = fetch and u = url and lib = lib and now = "now m"
          and self = ?self, OF sw(2) page] sw(3)
    have "detail_rows link_id (db (snd (run_details lib fetch (now m) ?ws ?self))) = detail_rows link_id ?st"
      "length (exturl_rows link_id (db (snd (run_details lib fetch (now m) ?ws ?self))))
         = length (exturl_rows link_id ?st) + length refs"
      unfolding db by simp_all
    moreover have "links_tbl (db (snd (run_details lib fetch (now m) ?ws ?self))) = links_tbl ?st"
      using run_details_frame [of lib fetch "now m" ?ws ?self] unfolding db by simp
    ultimately show ?case using Suc.IH by (simp add: run)
  qed
  from inv [of n] show "detail_rows link_id (deep_runs lib fetch now sched n st) = []"
    and "length (exturl_rows link_id (deep_runs lib fetch now sched n st))
             = length (exturl_rows link_id st) + n * length refs" by simp_all
  from work have "\<exists>l \<in> set (links_tbl st). l_id l = link_id \<and> l_link l = url"
    unfolding get_unscraped_mem by (simp add: new_scraper_def)
  with inv [of n] show "(link_id, url) \<in> set (get_unscraped (new_scraper (deep_runs lib fetch now sched n st)))"
    unfolding get_unscraped_mem by (simp add: new_scraper_def)
  show "\<forall>bound. \<exists>m. bound < length (exturl_rows link_id (deep_runs lib fetch now sched m st))"
    if "refs \<noteq> []"
  proof
    fix bound
    from that have "1 \<le> length refs" by (cases refs) simp_all
    then have "Suc bound * 1 \<le> Suc bound * length refs" by (rule mult_le_mono2)
    then have "Suc bound \<le> Suc bound * length refs" by simp
    with inv [of "Suc bound"]
    have "bound < length (exturl_rows link_id (deep_runs lib fetch now sched (Suc bound) st))"
      by simp
    then show "\<exists>m. bound < length (exturl_rows link_id (deep_runs lib fetch now sched m st))" ..
  qed
qed


theorem empty_description_rescraped_witness:
  "length (exturl_rows 1 (deep_runs (lib_detail soup_nodesc) (\<lambda>url. ''<html>'') (\<lambda>k. k) (\<lambda>k. rev) 2 store3)) = 2
   \<and> (1, ''https://guncadindex.com/detail/a'')
       \<in> set (get_unscraped (new_scraper
             (deep_runs (lib_detail soup_nodesc) (\<lambda>url. ''<html>'') (\<lambda>k. k) (\<lambda>k. rev) 2 store3)))"
proof -
  let ?r = "\<lparr>external_url = ''https://odysee.com/Item:abc'',
             source_href = ''/out/?u=https%3A%2F%2Fodysee.com%2FItem%3Aabc'',
             link_text = ''Get it''\<rparr>"
  have "extract_description (BeautifulSoup (lib_detail soup_nodesc) ''<html>'') = []"
    by (simp add: lib_detail_def soup_nodesc_def soup_eval str_eval)
  moreover have "extract_ext_links (lib_detail soup_nodesc) (BeautifulSoup (lib_detail soup_nodesc) ''<html>'')
      = Inr [?r]"
    by (simp add: lib_detail_def soup_nodesc_def soup_eval str_eval)
  moreover have "distinct (map l_id (links_tbl store3))" by (simp add: store3_def)
  moreover have "\<forall>k ws. mset (rev ws) = mset (ws :: (int \<times> string) list)" by simp
  moreover have "(1, ''https://guncadindex.com/detail/a'') \<in> set (get_unscraped (new_scraper store3))"
    by (simp add: get_unscraped_def left_join_def new_scraper_def store3_def joined_link_id_def)
  moreover have "exturl_rows 1 store3 = []" by (simp add: exturl_rows_def store3_def)
  ultimately show ?thesis
    using empty_description_rescraped [of "\<lambda>url. ''<html>''" "''https://guncadindex.com/detail/a''"
        "lib_detail soup_nodesc" "[?r]" "\<lambda>k. k" _ 1 store3 "\<lambda>k. rev" 2]
    by simp
qed

end
